theory Spec2Isabelle
  imports Main
begin

section \<open>BirthdayInputField: a shallow embedding\<close>

text \<open>
  The component lives in \<^verbatim>\<open>src/components/BirthdayInputField/BirthdayInputField.js\<close>.
  Its own functions (\<^verbatim>\<open>pad\<close>, \<^verbatim>\<open>parseNum\<close>, \<^verbatim>\<open>isValidDate\<close>, \<^verbatim>\<open>dateFromSelected\<close>,
  \<^verbatim>\<open>selectedFromDate\<close>, the option ranges, the methods of \<^verbatim>\<open>BirthdayInput\<close> and
  \<^verbatim>\<open>BirthdayInputFieldComponent\<close>) are translated line by line. The platform functions
  they call (\<^verbatim>\<open>parseInt\<close>, \<^verbatim>\<open>Date.UTC\<close>, the UTC getters of \<^verbatim>\<open>Date\<close>,
  \<^verbatim>\<open>window.setTimeout\<close>, \<^verbatim>\<open>window.clearTimeout\<close>, lodash's \<^verbatim>\<open>range\<close>,
  \<^verbatim>\<open>classNames\<close>) are modelled after their specifications (ECMA-262, HTML, the
  libraries' documentation).

  Numbers. A JavaScript Number is a double. The component handles integral values only: a
  finite one is modelled by the integer it is, next to \<open>NaN\<close> and the two infinities, and
  the model rounds where JavaScript does (\<open>toNumber\<close>). Negative zero is identified with
  zero: nothing in the component tells them apart. Numbers with a fraction are left out
  (\<^verbatim>\<open>parseInt\<close> reads such a field through its string, as it reads the string itself).

  Strings. A string is a list of code units, here \<^typ>\<open>char\<close>, read as the code units
  \<open>0\<close> to \<open>255\<close>.
\<close>

subsection \<open>Values, numbers and their strings\<close>

datatype number = NaN | Finite int | PosInfinity | NegInfinity

text \<open>The values a field of a selection can hold here: \<^verbatim>\<open>null\<close>, \<^verbatim>\<open>undefined\<close>, a Number
  (\<open>JNum n\<close> is the Number nearest to the integer \<open>n\<close>: \<open>n\<close> itself below \<open>2 ^ 53\<close>), a
  string.\<close>

datatype jsval = JNull | JUndefined | JNaN | JNum int | JInfinity | JNegInfinity | JStr string

subsubsection \<open>The Number for an integer\<close>

definition two53 :: int where
  "two53 = 9007199254740992"

text \<open>How often \<open>m\<close> is halved until it is below \<open>2 ^ 53\<close>: the exponent of its unit in
  the last place.\<close>

fun shiftCount :: "nat \<Rightarrow> nat" where
  "shiftCount m = (if m < 9007199254740992 then 0 else Suc (shiftCount (m div 2)))"

declare shiftCount.simps [simp del]

text \<open>The Number value for a mathematical integer: the integer itself below \<open>2 ^ 53\<close>; above,
  the nearest multiple of the unit in the last place (53 significant bits), the even one of
  two that are equally near; an infinity from \<open>2 ^ 1024\<close> on.\<close>

definition toNumber :: "int \<Rightarrow> number" where
  "toNumber n =
    (if \<bar>n\<bar> < two53 then Finite n
     else
       let m = nat \<bar>n\<bar>;
           e = shiftCount m;
           q = m div 2 ^ e;
           r = m mod 2 ^ e;
           q' = (if 2 * r > 2 ^ e \<or> (2 * r = 2 ^ e \<and> odd q) then q + 1 else q);
           v = q' * 2 ^ e
       in if v \<ge> 2 ^ 1024 then (if n < 0 then NegInfinity else PosInfinity)
          else Finite (if n < 0 then - int v else int v))"

subsubsection \<open>The string of a Number (ECMA-262, Number::toString)\<close>

definition digitChar :: "nat \<Rightarrow> char" where
  "digitChar k = ''0123456789'' ! k"

fun digitsOf :: "nat \<Rightarrow> string" where
  "digitsOf n = (if n < 10 then [digitChar n] else digitsOf (n div 10) @ [digitChar (n mod 10)])"

declare digitsOf.simps [simp del]

text \<open>The decimal with the fewest significant digits whose Number is \<open>x\<close> (a Number of \<open>N\<close>
  digits, at least \<open>2 ^ 53\<close>): with \<open>k\<close> digits kept it is one of the two multiples of
  \<open>10 ^ (N - k)\<close> around \<open>x\<close>; of two that qualify the nearer to \<open>x\<close>, the even one if they
  are equally near. With all \<open>N\<close> digits kept it is \<open>x\<close>.\<close>

function shortestFrom :: "int \<Rightarrow> nat \<Rightarrow> nat \<Rightarrow> int" where
  "shortestFrom x N k =
    (if N \<le> k then x
     else
       let p = 10 ^ (N - k);
           lo = x div p;
           r = x mod p;
           vlo = (toNumber (lo * p) = Finite x);
           vhi = (toNumber ((lo + 1) * p) = Finite x)
       in if vlo \<and> vhi
          then (if 2 * r < p \<or> (2 * r = p \<and> even lo) then lo * p else (lo + 1) * p)
          else if vlo then lo * p
          else if vhi then (lo + 1) * p
          else shortestFrom x N (Suc k))"
  by pat_completeness auto
termination
  by (relation "measure (\<lambda>(x, N, k). N - k)") auto

declare shortestFrom.simps [simp del]

text \<open>Below \<open>2 ^ 53\<close> every integer is a Number of its own, so all its digits are needed.\<close>

definition shortestDecimal :: "int \<Rightarrow> int" where
  "shortestDecimal x =
    (if x < two53 then x else shortestFrom x (length (digitsOf (nat x))) 1)"

text \<open>From \<open>10 ^ 21\<close> on: the first digit, the other significant digits after a point,
  \<open>e+\<close> and the exponent.\<close>

definition exponentForm :: "string \<Rightarrow> string" where
  "exponentForm D =
    (case rev (dropWhile (\<lambda>c. c = CHR ''0'') (rev D)) of
       [] \<Rightarrow> []
     | c # cs \<Rightarrow>
         c # (if cs = [] then [] else CHR ''.'' # cs) @ ''e+'' @ digitsOf (length D - 1))"

definition positiveToString :: "int \<Rightarrow> string" where
  "positiveToString x =
    (let V = shortestDecimal x; D = digitsOf (nat V)
     in if V < 10 ^ 21 then D else exponentForm D)"

text \<open>\<^verbatim>\<open>Number.prototype.toString()\<close> and the string conversion of a template literal, on
  the Number nearest to \<open>n\<close>.\<close>

definition NumberToString :: "int \<Rightarrow> string" where
  "NumberToString n =
    (case toNumber n of
       NaN \<Rightarrow> ''NaN''
     | Finite x \<Rightarrow> if x < 0 then CHR ''-'' # positiveToString (- x) else positiveToString x
     | PosInfinity \<Rightarrow> ''Infinity''
     | NegInfinity \<Rightarrow> ''-Infinity'')"

fun ToString :: "jsval \<Rightarrow> string" where
  "ToString JNull = ''null''"
| "ToString JUndefined = ''undefined''"
| "ToString JNaN = ''NaN''"
| "ToString (JNum n) = NumberToString n"
| "ToString JInfinity = ''Infinity''"
| "ToString JNegInfinity = ''-Infinity''"
| "ToString (JStr s) = s"

subsubsection \<open>\<^verbatim>\<open>parseInt\<close> and \<^verbatim>\<open>parseNum\<close>\<close>

definition isStrWhiteSpaceChar :: "char \<Rightarrow> bool" where
  "isStrWhiteSpaceChar c \<longleftrightarrow> (of_char c :: nat) \<in> {9, 10, 11, 12, 13, 32, 160}"

definition isDigit :: "char \<Rightarrow> bool" where
  "isDigit c \<longleftrightarrow> 48 \<le> (of_char c :: nat) \<and> (of_char c :: nat) \<le> 57"

definition digitValue :: "char \<Rightarrow> int" where
  "digitValue c = int (of_char c) - 48"

definition digitsValue :: "string \<Rightarrow> int" where
  "digitsValue Z = foldl (\<lambda>a c. 10 * a + digitValue c) 0 Z"

text \<open>\<^verbatim>\<open>parseInt(string, 10)\<close> (ECMA-262, parseInt): the argument is converted to a string,
  leading white space is dropped, one sign is read, then the longest run of decimal
  digits; no digit gives \<open>NaN\<close>, and otherwise the result is the Number for the integer
  that the digits denote, with the sign. (Beyond 20 significant digits ECMA-262 lets an
  engine approximate; the engines round to the nearest Number there too.)\<close>

definition parseInt10 :: "jsval \<Rightarrow> number" where
  "parseInt10 v =
    (let S = dropWhile isStrWhiteSpaceChar (ToString v);
         sign = (if S \<noteq> [] \<and> hd S = CHR ''-'' then - 1 else 1);
         S' = (if S \<noteq> [] \<and> (hd S = CHR ''+'' \<or> hd S = CHR ''-'') then tl S else S);
         Z = takeWhile isDigit S'
     in if Z = [] then NaN else toNumber (sign * digitsValue Z))"

fun isNaN :: "number \<Rightarrow> bool" where
  "isNaN NaN = True"
| "isNaN (Finite n) = False"
| "isNaN PosInfinity = False"
| "isNaN NegInfinity = False"

text \<open>\<^verbatim>\<open>parseNum\<close>: \<open>None\<close> is JavaScript's \<^verbatim>\<open>null\<close>.\<close>

definition parseNum :: "jsval \<Rightarrow> number option" where
  "parseNum str =
    (let num = parseInt10 str
     in if isNaN num then None else Some num)"

text \<open>\<^verbatim>\<open>pad\<close>.\<close>

definition pad :: "int \<Rightarrow> string" where
  "pad num = (if num \<ge> 0 \<and> num < 10 then ''0'' @ NumberToString num else NumberToString num)"

subsection \<open>Dates (ECMA-262, Date objects)\<close>

text \<open>The abstract operations of ECMA-262 on time values, under their names there:
  \<open>Day\<close>, \<open>DaysInYear\<close>, \<open>DayFromYear\<close>, \<open>TimeFromYear\<close>, \<open>YearFromTime\<close>, \<open>InLeapYear\<close>,
  \<open>DayWithinYear\<close>, \<open>MonthFromTime\<close>, \<open>DateFromTime\<close>, \<open>MakeDay\<close>, \<open>MakeDate\<close> and \<open>TimeClip\<close>.
  Division and remainder on \<^typ>\<open>int\<close> round down, as \<open>floor\<close> and \<open>modulo\<close> do there.\<close>

definition msPerDay :: int where
  "msPerDay = 86400000"

definition Day :: "int \<Rightarrow> int" where
  "Day t = t div msPerDay"

definition DaysInYear :: "int \<Rightarrow> int" where
  "DaysInYear y =
    (if y mod 4 \<noteq> 0 then 365
     else if y mod 100 \<noteq> 0 then 366
     else if y mod 400 \<noteq> 0 then 365
     else 366)"

definition DayFromYear :: "int \<Rightarrow> int" where
  "DayFromYear y =
    365 * (y - 1970) + (y - 1969) div 4 - (y - 1901) div 100 + (y - 1601) div 400"

definition TimeFromYear :: "int \<Rightarrow> int" where
  "TimeFromYear y = msPerDay * DayFromYear y"

lemma div_step:
  fixes a k :: int
  assumes "0 < k"
  shows "(a + 1) div k = a div k + (if (a + 1) mod k = 0 then 1 else 0)"
proof -
  have r: "0 \<le> a mod k" "a mod k < k"
    using assms by simp_all
  have e: "a + 1 = k * (a div k) + (a mod k + 1)"
    by simp
  show ?thesis
  proof (cases "a mod k + 1 = k")
    case True
    then have "a + 1 = k * (a div k + 1) + 0"
      using e by (simp add: algebra_simps)
    then have "(a + 1) div k = a div k + 1 \<and> (a + 1) mod k = 0"
      using assms int_div_pos_eq [of "a + 1" k "a div k + 1" 0]
        int_mod_pos_eq [of "a + 1" k "a div k + 1" 0] by simp
    then show ?thesis
      by simp
  next
    case False
    then have b: "0 \<le> a mod k + 1" "a mod k + 1 < k"
      using r by simp_all
    have "(a + 1) div k = a div k \<and> (a + 1) mod k = a mod k + 1"
      using int_div_pos_eq [OF e b] int_mod_pos_eq [OF e b] by simp
    then show ?thesis
      using r by simp
  qed
qed

lemma leap_step:
  fixes y k c :: int
  assumes "0 < k"
  shows "(y + 1 - (c * k + 1)) div k = (y - (c * k + 1)) div k + (if y mod k = 0 then 1 else 0)"
proof -
  have "y - (c * k + 1) + 1 = y + k * (- c)"
    by (simp add: algebra_simps)
  then have "(y - (c * k + 1) + 1) mod k = y mod k"
    by (simp only: mod_mult_self2)
  moreover have "y + 1 - (c * k + 1) = y - (c * k + 1) + 1"
    by simp
  ultimately show ?thesis
    using div_step [OF assms, of "y - (c * k + 1)"] by simp
qed

lemma mod_100_4: "y mod 100 = 0 \<Longrightarrow> y mod 4 = 0" for y :: int
  using mod_mod_cancel [of 4 100 y] by simp

lemma mod_400_100: "y mod 400 = 0 \<Longrightarrow> y mod 100 = 0" for y :: int
  using mod_mod_cancel [of 100 400 y] by simp

lemma DayFromYear_Suc: "DayFromYear (y + 1) = DayFromYear y + DaysInYear y"
proof -
  have a: "(y + 1 - 1969) div 4 = (y - 1969) div 4 + (if y mod 4 = 0 then 1 else 0)"
    using leap_step [of 4 y 492] by simp
  have b: "(y + 1 - 1901) div 100 = (y - 1901) div 100 + (if y mod 100 = 0 then 1 else 0)"
    using leap_step [of 100 y 19] by simp
  have c: "(y + 1 - 1601) div 400 = (y - 1601) div 400 + (if y mod 400 = 0 then 1 else 0)"
    using leap_step [of 400 y 4] by simp
  have "DayFromYear (y + 1) =
      365 * (y - 1970) + 365 + (y + 1 - 1969) div 4 - (y + 1 - 1901) div 100
        + (y + 1 - 1601) div 400"
    by (simp add: DayFromYear_def)
  also have "\<dots> = DayFromYear y + DaysInYear y"
    unfolding a b c DayFromYear_def DaysInYear_def
    using mod_100_4 [of y] mod_400_100 [of y] by (simp split: if_splits)
  finally show ?thesis .
qed

lemma DaysInYear_pos: "0 < DaysInYear y"
  by (simp add: DaysInYear_def)

text \<open>\<open>YearFromTime t\<close> is the largest \<open>y\<close> with \<open>TimeFromYear y \<le> t\<close>. It is computed by
  counting up from a year that is not after it; \<open>YearFromTime_spec\<close> below shows that the
  result is that largest year.\<close>

function yearFrom :: "int \<Rightarrow> int \<Rightarrow> int" where
  "yearFrom d y = (if DayFromYear (y + 1) \<le> d then yearFrom d (y + 1) else y)"
  by pat_completeness auto
termination
proof (relation "measure (\<lambda>(d, y). nat (d - DayFromYear (y + 1) + 1))")
  show "wf (measure (\<lambda>(d, y). nat (d - DayFromYear (y + 1) + 1)))"
    by simp
next
  fix d y :: int
  assume "DayFromYear (y + 1) \<le> d"
  moreover have "DayFromYear (y + 1 + 1) = DayFromYear (y + 1) + DaysInYear (y + 1)"
    by (rule DayFromYear_Suc)
  moreover have "0 < DaysInYear (y + 1)"
    by (rule DaysInYear_pos)
  ultimately show "((d, y + 1), (d, y)) \<in> measure (\<lambda>(d, y). nat (d - DayFromYear (y + 1) + 1))"
    by simp
qed

declare yearFrom.simps [simp del]

definition YearFromTime :: "int \<Rightarrow> int" where
  "YearFromTime t =
    (let d = Day t in yearFrom d (1970 + (if 0 \<le> d then d div 366 else d div 365)))"

definition InLeapYear :: "int \<Rightarrow> int" where
  "InLeapYear t = (if DaysInYear (YearFromTime t) = 366 then 1 else 0)"

definition DayWithinYear :: "int \<Rightarrow> int" where
  "DayWithinYear t = Day t - DayFromYear (YearFromTime t)"

definition MonthFromTime :: "int \<Rightarrow> int" where
  "MonthFromTime t =
    (let dwy = DayWithinYear t; L = InLeapYear t in
     if dwy < 31 then 0
     else if dwy < 59 + L then 1
     else if dwy < 90 + L then 2
     else if dwy < 120 + L then 3
     else if dwy < 151 + L then 4
     else if dwy < 181 + L then 5
     else if dwy < 212 + L then 6
     else if dwy < 243 + L then 7
     else if dwy < 273 + L then 8
     else if dwy < 304 + L then 9
     else if dwy < 334 + L then 10
     else 11)"

definition DateFromTime :: "int \<Rightarrow> int" where
  "DateFromTime t =
    (let dwy = DayWithinYear t; L = InLeapYear t; m = MonthFromTime t in
     if m = 0 then dwy + 1
     else if m = 1 then dwy - 30
     else if m = 2 then dwy - 58 - L
     else if m = 3 then dwy - 89 - L
     else if m = 4 then dwy - 119 - L
     else if m = 5 then dwy - 150 - L
     else if m = 6 then dwy - 180 - L
     else if m = 7 then dwy - 211 - L
     else if m = 8 then dwy - 242 - L
     else if m = 9 then dwy - 272 - L
     else if m = 10 then dwy - 303 - L
     else dwy - 333 - L)"

text \<open>The day within its year on which month \<open>mn\<close> (0 to 11) starts.\<close>

definition monthStart :: "int \<Rightarrow> int \<Rightarrow> int" where
  "monthStart mn L =
    (if mn = 0 then 0
     else if mn = 1 then 31
     else if mn = 2 then 59 + L
     else if mn = 3 then 90 + L
     else if mn = 4 then 120 + L
     else if mn = 5 then 151 + L
     else if mn = 6 then 181 + L
     else if mn = 7 then 212 + L
     else if mn = 8 then 243 + L
     else if mn = 9 then 273 + L
     else if mn = 10 then 304 + L
     else 334 + L)"

text \<open>The number of days of month \<open>mn\<close> (0 to 11) in a year with leap flag \<open>L\<close>; not
  a function of ECMA-262, used to state which dates exist.\<close>

definition daysInMonth :: "int \<Rightarrow> int \<Rightarrow> int" where
  "daysInMonth mn L =
    (if mn = 1 then 28 + L
     else if mn = 3 \<or> mn = 5 \<or> mn = 8 \<or> mn = 10 then 30
     else 31)"

text \<open>The day number of day \<open>dd\<close> of month \<open>mn\<close> (0 to 11) of year \<open>y\<close>.\<close>

definition civilDay :: "int \<Rightarrow> int \<Rightarrow> int \<Rightarrow> int" where
  "civilDay y mn dd = DayFromYear y + monthStart mn (DaysInYear y - 365) + dd - 1"

definition maxTime :: int where
  "maxTime = 8640000000000000"

definition TimeClip :: "number \<Rightarrow> number" where
  "TimeClip time =
    (case time of
       Finite t \<Rightarrow> if \<bar>t\<bar> > maxTime then NaN else Finite t
     | _ \<Rightarrow> NaN)"

text \<open>\<open>MakeDay\<close>: the day number of the first of month \<open>mn\<close> of year \<open>ym\<close>, plus
  \<open>date - 1\<close>. The engines compute this also where that first of the month lies outside the
  range of time values (so that \<^verbatim>\<open>Date.UTC(-271821, 3, 20)\<close> is the first time value of
  all), and so does the model. The time of day is always zero here, so \<open>MakeTime\<close> is left
  out.\<close>

definition MakeDay :: "int \<Rightarrow> int \<Rightarrow> int \<Rightarrow> int" where
  "MakeDay year month date =
    (let ym = year + month div 12;
         mn = month mod 12
     in DayFromYear ym + monthStart mn (if DaysInYear ym = 366 then 1 else 0) + date - 1)"

definition MakeDate :: "int \<Rightarrow> int \<Rightarrow> int" where
  "MakeDate day time = day * msPerDay + time"

text \<open>\<^verbatim>\<open>Date.UTC(year, month, date)\<close> on finite arguments: a year from 0 to 99 means 1900 to
  1999. The model computes on the integers where JavaScript computes on doubles, and an
  engine may give up on a year or a month far outside the calendar; the results can differ
  only when an argument is \<open>2 ^ 53\<close> or more in magnitude, the year has no time value or
  the month is not one of the twelve, and then neither is a date that reads back as the
  arguments (\<open>isValidDate\<close> below).\<close>

definition Date_UTC :: "int \<Rightarrow> int \<Rightarrow> int \<Rightarrow> number" where
  "Date_UTC year month date =
    (let yr = (if 0 \<le> year \<and> year \<le> 99 then 1900 + year else year)
     in TimeClip (Finite (MakeDate (MakeDay yr month date) 0)))"

text \<open>On any Numbers: an argument that is not finite gives \<open>NaN\<close>.\<close>

fun Date_UTC_number :: "number \<Rightarrow> number \<Rightarrow> number \<Rightarrow> number" where
  "Date_UTC_number (Finite year) (Finite month) (Finite date) = Date_UTC year month date"
| "Date_UTC_number _ _ _ = NaN"

text \<open>A \<^verbatim>\<open>Date\<close> object holds a time value: milliseconds since 1970-01-01 UTC, or
  \<open>NaN\<close> (an invalid date).\<close>

datatype date = Date (timeValue: number)

definition newDate :: "number \<Rightarrow> date" where
  "newDate v = Date (TimeClip v)"

definition getUTCFullYear :: "date \<Rightarrow> number" where
  "getUTCFullYear d = (case timeValue d of Finite t \<Rightarrow> Finite (YearFromTime t) | _ \<Rightarrow> NaN)"

definition getUTCMonth :: "date \<Rightarrow> number" where
  "getUTCMonth d = (case timeValue d of Finite t \<Rightarrow> Finite (MonthFromTime t) | _ \<Rightarrow> NaN)"

definition getUTCDate :: "date \<Rightarrow> number" where
  "getUTCDate d = (case timeValue d of Finite t \<Rightarrow> Finite (DateFromTime t) | _ \<Rightarrow> NaN)"

text \<open>\<open>x + k\<close> on Numbers, for an integer \<open>k\<close>: the sum is rounded; \<open>NaN\<close> and the
  infinities stay.\<close>

fun addNumber :: "number \<Rightarrow> int \<Rightarrow> number" where
  "addNumber NaN k = NaN"
| "addNumber (Finite n) k = toNumber (n + k)"
| "addNumber PosInfinity k = PosInfinity"
| "addNumber NegInfinity k = NegInfinity"

text \<open>\<^verbatim>\<open>===\<close> on Numbers: \<open>NaN\<close> equals nothing.\<close>

definition strictEqualsNumber :: "number \<Rightarrow> number \<Rightarrow> bool" where
  "strictEqualsNumber a b \<longleftrightarrow> a \<noteq> NaN \<and> a = b"

subsection \<open>The date composer\<close>

text \<open>\<^verbatim>\<open>isValidDate\<close>.\<close>

definition isValidDate :: "date \<Rightarrow> number \<Rightarrow> number \<Rightarrow> number \<Rightarrow> bool" where
  "isValidDate date year month day =
    (let yearsMatch = strictEqualsNumber (getUTCFullYear date) year;
         monthsMatch = strictEqualsNumber (addNumber (getUTCMonth date) 1) month;
         daysMatch = strictEqualsNumber (getUTCDate date) day
     in yearsMatch \<and> monthsMatch \<and> daysMatch)"

record selection =
  day :: jsval
  month :: jsval
  year :: jsval

text \<open>\<^verbatim>\<open>dateFromSelected\<close>, on a selection whose fields are such values: \<open>None\<close> is
  \<^verbatim>\<open>null\<close>.\<close>

definition dateFromSelected :: "selection \<Rightarrow> date option" where
  "dateFromSelected sel =
    (let dayNum = parseNum (day sel);
         monthNum = parseNum (month sel);
         yearNum = parseNum (year sel)
     in case (dayNum, monthNum, yearNum) of
          (Some dn, Some mn, Some yn) \<Rightarrow>
            (let d = newDate (Date_UTC_number yn (addNumber mn (- 1)) dn)
             in if isValidDate d yn mn dn then Some d else None)
        | _ \<Rightarrow> None)"

text \<open>What a call of \<^verbatim>\<open>dateFromSelected\<close> can be given, and what it can throw. The
  parameter is destructured, which throws a \<^verbatim>\<open>TypeError\<close> on \<^verbatim>\<open>null\<close> and on
  \<^verbatim>\<open>undefined\<close>; of anything else the properties \<^verbatim>\<open>day\<close>, \<^verbatim>\<open>month\<close> and \<^verbatim>\<open>year\<close> are
  read (a property that is missing reads as \<^verbatim>\<open>undefined\<close>). \<^verbatim>\<open>parseInt\<close> converts its
  argument to a string, which throws for a Symbol (a \<^verbatim>\<open>TypeError\<close>) and for an object
  whose own conversion throws: \<open>Throwing e\<close> is such a value, \<open>e\<close> what is thrown. The
  three fields are parsed in the order day, month, year.\<close>

datatype error = Error string | TypeError




fun numberVal :: "number \<Rightarrow> jsval" where
  "numberVal NaN = JNaN"
| "numberVal (Finite n) = JNum n"
| "numberVal PosInfinity = JInfinity"
| "numberVal NegInfinity = JNegInfinity"

text \<open>\<^verbatim>\<open>selectedFromDate\<close>.\<close>

definition selectedFromDate :: "date \<Rightarrow> selection" where
  "selectedFromDate date =
    \<lparr> day = numberVal (getUTCDate date),
      month = numberVal (addNumber (getUTCMonth date) 1),
      year = numberVal (getUTCFullYear date) \<rparr>"






subsection \<open>The option ranges\<close>

text \<open>lodash's \<^verbatim>\<open>range(start, end, step)\<close>: \<open>max(ceil((end - start) / (step || 1)), 0)\<close>
  elements, from \<open>start\<close> in steps of \<open>step\<close>; a step that is not given is \<open>1\<close> when
  \<open>start < end\<close> and \<open>-1\<close> otherwise.\<close>

definition baseRange :: "int \<Rightarrow> int \<Rightarrow> int \<Rightarrow> int list" where
  "baseRange start stop step =
    (let length = max (- ((- (stop - start)) div (if step = 0 then 1 else step))) 0
     in map (\<lambda>index. start + int index * step) [0..<nat length])"

definition range_lodash :: "int \<Rightarrow> int \<Rightarrow> int option \<Rightarrow> int list" where
  "range_lodash start stop step =
    baseRange start stop
      (case step of None \<Rightarrow> (if start < stop then 1 else - 1) | Some s \<Rightarrow> s)"

definition days :: "int list" where
  "days = range_lodash 1 32 None"

definition months :: "int list" where
  "months = range_lodash 1 13 None"

definition yearsToShow :: int where
  "yearsToShow = 80"

text \<open>\<^verbatim>\<open>currentYear\<close> is \<^verbatim>\<open>new Date().getFullYear()\<close> when the module is loaded: a
  parameter here.\<close>

definition years :: "int \<Rightarrow> int list" where
  "years currentYear = range_lodash currentYear (currentYear - yearsToShow) (Some (- 1))"

text \<open>The \<^verbatim>\<open>option\<close> elements of \<^verbatim>\<open>render\<close>, after the empty one: the value and the
  label of each. A number rendered as a child is its string.\<close>

definition dayOptions :: "(int \<times> string) list" where
  "dayOptions = map (\<lambda>d. (d, pad d)) days"

definition monthOptions :: "(int \<times> string) list" where
  "monthOptions = map (\<lambda>m. (m, pad m)) months"

definition yearOptions :: "int \<Rightarrow> (int \<times> string) list" where
  "yearOptions currentYear = map (\<lambda>y. (y, NumberToString y)) (years currentYear)"

subsection \<open>The widget \<^verbatim>\<open>BirthdayInput\<close>\<close>

text \<open>The \<^verbatim>\<open>value\<close> prop: \<^verbatim>\<open>null\<close>, or a \<^verbatim>\<open>Date\<close> object, which has an identity (its
  reference) and a content. \<^verbatim>\<open>!==\<close> on objects compares the references.\<close>

datatype propValue = NullValue | DateValue nat date

fun strictEq :: "propValue \<Rightarrow> propValue \<Rightarrow> bool" where
  "strictEq NullValue NullValue = True"
| "strictEq (DateValue r d) (DateValue r' d') = (r = r')"
| "strictEq _ _ = False"

datatype fieldType = DayField | MonthField | YearField

text \<open>A call of one of the callbacks in the props. The date passed to \<^verbatim>\<open>onChange\<close> is a
  new object each time; only its content is recorded.\<close>

datatype call = OnFocus | OnBlur | OnChange "date option"

text \<open>A component instance and what it acts on: its state (\<open>selected\<close>), its field
  \<open>blurTimeoutId\<close> (\<open>None\<close> is \<^verbatim>\<open>null\<close>), its \<^verbatim>\<open>value\<close> prop, the timeouts of the window
  that are pending (the handle and the time due of each; the only callback ever scheduled
  is the one that calls \<^verbatim>\<open>onBlur\<close>), the next handle, the clock in milliseconds, and the
  calls of the callbacks made so far, oldest first.\<close>

record widget =
  selected :: selection
  blurTimeoutId :: "nat option"
  propsValue :: propValue
  timers :: "(nat \<times> nat) list"
  nextTimerId :: nat
  now :: nat
  calls :: "call list"

definition BLUR_TIMEOUT :: nat where
  "BLUR_TIMEOUT = 100"

text \<open>\<^verbatim>\<open>window.clearTimeout(handle)\<close>: the timeout with that handle, if there is one, is
  no longer pending.\<close>

definition clearTimeout :: "nat option \<Rightarrow> widget \<Rightarrow> widget" where
  "clearTimeout handle w =
    (case handle of
       None \<Rightarrow> w
     | Some i \<Rightarrow> w\<lparr>timers := filter (\<lambda>(j, due). j \<noteq> i) (timers w)\<rparr>)"

text \<open>\<^verbatim>\<open>window.setTimeout(callback, delay)\<close>: a new handle, and a timeout pending.\<close>

definition setTimeout :: "nat \<Rightarrow> widget \<Rightarrow> nat \<times> widget" where
  "setTimeout delay w =
    (nextTimerId w,
     w\<lparr>timers := timers w @ [(nextTimerId w, now w + delay)],
       nextTimerId := nextTimerId w + 1\<rparr>)"

text \<open>Time passes: every timeout that is due runs its callback, which calls \<^verbatim>\<open>onBlur\<close>.\<close>

definition elapse :: "nat \<Rightarrow> widget \<Rightarrow> widget" where
  "elapse dt w =
    (let t = now w + dt
     in w\<lparr>now := t,
          timers := filter (\<lambda>(i, due). t < due) (timers w),
          calls := calls w @ map (\<lambda>_. OnBlur) (filter (\<lambda>(i, due). due \<le> t) (timers w))\<rparr>)"

text \<open>The constructor, in a window with no timeout pending.\<close>

definition constructor :: "propValue \<Rightarrow> widget" where
  "constructor v =
    \<lparr> selected = \<lparr> day = JNull, month = JNull, year = JNull \<rparr>,
      blurTimeoutId = None,
      propsValue = v,
      timers = [],
      nextTimerId = 1,
      now = 0,
      calls = [] \<rparr>"

definition componentWillMount :: "widget \<Rightarrow> widget" where
  "componentWillMount w =
    (case propsValue w of
       DateValue r d \<Rightarrow> w\<lparr>selected := selectedFromDate d\<rparr>
     | NullValue \<Rightarrow> w)"

definition componentWillReceiveProps :: "widget \<Rightarrow> propValue \<Rightarrow> widget" where
  "componentWillReceiveProps w newValue =
    (let oldValue = propsValue w;
         valueChanged = (\<not> strictEq oldValue newValue)
     in case newValue of
          DateValue r d \<Rightarrow> if valueChanged then w\<lparr>selected := selectedFromDate d\<rparr> else w
        | NullValue \<Rightarrow> w)"

definition componentWillUnmount :: "widget \<Rightarrow> widget" where
  "componentWillUnmount w = clearTimeout (blurTimeoutId w) w"

definition handleSelectFocus :: "widget \<Rightarrow> widget" where
  "handleSelectFocus w =
    (let w1 = clearTimeout (blurTimeoutId w) w
     in w1\<lparr>calls := calls w1 @ [OnFocus]\<rparr>)"

definition handleSelectBlur :: "widget \<Rightarrow> widget" where
  "handleSelectBlur w =
    (let w1 = clearTimeout (blurTimeoutId w) w;
         (handle, w2) = setTimeout BLUR_TIMEOUT w1
     in w2\<lparr>blurTimeoutId := Some handle\<rparr>)"

fun parsedVal :: "number option \<Rightarrow> jsval" where
  "parsedVal None = JNull"
| "parsedVal (Some n) = numberVal n"

fun setField :: "fieldType \<Rightarrow> jsval \<Rightarrow> selection \<Rightarrow> selection" where
  "setField DayField v sel = sel\<lparr>day := v\<rparr>"
| "setField MonthField v sel = sel\<lparr>month := v\<rparr>"
| "setField YearField v sel = sel\<lparr>year := v\<rparr>"

fun getField :: "fieldType \<Rightarrow> selection \<Rightarrow> jsval" where
  "getField DayField sel = day sel"
| "getField MonthField sel = month sel"
| "getField YearField sel = year sel"

text \<open>\<^verbatim>\<open>handleSelectChange\<close>: the updater given to \<^verbatim>\<open>setState\<close> runs once, on the state
  as it is.\<close>

definition handleSelectChange :: "widget \<Rightarrow> fieldType \<Rightarrow> jsval \<Rightarrow> widget" where
  "handleSelectChange w type v =
    (let selected' = setField type (parsedVal (parseNum v)) (selected w)
     in w\<lparr>calls := calls w @ [OnChange (dateFromSelected selected')], selected := selected'\<rparr>)"

text \<open>What can happen to a mounted widget, as \<^verbatim>\<open>render\<close> wires it: each of the three
  selects calls \<open>handleSelectFocus\<close> when it gets the focus and \<open>handleSelectBlur\<close> when it
  loses it, and on a change calls \<open>handleSelectChange\<close> with its own field and the value of
  the event's target, a string. When the props change, React calls
  \<^verbatim>\<open>componentWillReceiveProps\<close> and then replaces the props. Time passes.\<close>

datatype event =
    Focus fieldType
  | Blur fieldType
  | Change fieldType string
  | ReceiveProps propValue
  | Elapse nat

fun step :: "widget \<Rightarrow> event \<Rightarrow> widget" where
  "step w (Focus control) = handleSelectFocus w"
| "step w (Blur control) = handleSelectBlur w"
| "step w (Change type raw) = handleSelectChange w type (JStr raw)"
| "step w (ReceiveProps v) = (componentWillReceiveProps w v)\<lparr>propsValue := v\<rparr>"
| "step w (Elapse dt) = elapse dt w"

definition mount :: "propValue \<Rightarrow> widget" where
  "mount v = componentWillMount (constructor v)"

definition run :: "propValue \<Rightarrow> event list \<Rightarrow> widget" where
  "run v evs = foldl step (mount v) evs"

text \<open>Every pending timeout is the one whose handle the widget holds.\<close>

definition timersOwned :: "widget \<Rightarrow> bool" where
  "timersOwned w = list_all (\<lambda>(i, due). blurTimeoutId w = Some i) (timers w)"

subsection \<open>The field wrapper \<^verbatim>\<open>BirthdayInputFieldComponent\<close>\<close>

text \<open>A prop that is a string or \<^verbatim>\<open>null\<close>. In a condition, \<^verbatim>\<open>null\<close> and the empty
  string count as false.\<close>

definition truthy :: "string option \<Rightarrow> bool" where
  "truthy s = (case s of None \<Rightarrow> False | Some x \<Rightarrow> x \<noteq> [])"

text \<open>\<^verbatim>\<open>classNames(...)\<close> on strings and \<^verbatim>\<open>null\<close>: the arguments that count as true,
  joined by a space.\<close>

fun truthyArgs :: "string option list \<Rightarrow> string list" where
  "truthyArgs [] = []"
| "truthyArgs (None # args) = truthyArgs args"
| "truthyArgs (Some x # args) = (if x = [] then truthyArgs args else x # truthyArgs args)"

fun joinSpace :: "string list \<Rightarrow> string" where
  "joinSpace [] = []"
| "joinSpace [x] = x"
| "joinSpace (x # y # xs) = x @ '' '' @ joinSpace (y # xs)"

definition classNames :: "string option list \<Rightarrow> string" where
  "classNames args = joinSpace (truthyArgs args)"

text \<open>The props. \<^verbatim>\<open>input\<close> is an object: its keys and what they hold.\<close>

record ('v, 'm) fieldProps =
  rootClassName :: "string option"
  className :: "string option"
  fieldId :: "string option"
  label :: "string option"
  input :: "string \<rightharpoonup> 'v"
  meta :: 'm

text \<open>The element that is returned: the classes of the root, the label element if there
  is one (its \<^verbatim>\<open>htmlFor\<close> and its text), the props of the \<^verbatim>\<open>BirthdayInput\<close> and the
  \<^verbatim>\<open>fieldMeta\<close> of the \<^verbatim>\<open>ValidationError\<close>. The props of the \<^verbatim>\<open>BirthdayInput\<close> are
  \<^verbatim>\<open>{ id, ...input }\<close>: the key \<^verbatim>\<open>id\<close> holds the id prop (\<open>Inl\<close>) unless \<^verbatim>\<open>input\<close> has a
  key \<^verbatim>\<open>id\<close> of its own, and every key of \<^verbatim>\<open>input\<close> holds what it holds there
  (\<open>Inr\<close>).\<close>

record ('v, 'm) fieldElement =
  classes :: string
  labelElement :: "(string option \<times> string) option"
  inputProps :: "string \<rightharpoonup> (string option + 'v)"
  fieldMeta :: 'm

text \<open>\<^verbatim>\<open>BirthdayInputFieldComponent\<close>; the prop \<^verbatim>\<open>id\<close> is \<open>fieldId\<close> here, and
  \<open>css_fieldRoot\<close> is the class \<^verbatim>\<open>css.fieldRoot\<close> of the style sheet.\<close>

definition BirthdayInputFieldComponent ::
  "string \<Rightarrow> ('v, 'm) fieldProps \<Rightarrow> error + ('v, 'm) fieldElement" where
  "BirthdayInputFieldComponent css_fieldRoot props =
    (if truthy (label props) \<and> \<not> truthy (fieldId props)
     then Inl (Error ''id required when a label is given'')
     else
       let classes = classNames
             [if truthy (rootClassName props) then rootClassName props else Some css_fieldRoot,
              className props];
           inputProps = [''id'' \<mapsto> Inl (fieldId props)] ++ (\<lambda>k. map_option Inr (input props k))
       in Inr \<lparr> classes = classes,
                labelElement =
                  (case label props of
                     None \<Rightarrow> None
                   | Some l \<Rightarrow> if l \<noteq> [] then Some (fieldId props, l) else None),
                inputProps = inputProps,
                fieldMeta = meta props \<rparr>)"

section \<open>Properties of the platform functions\<close>

subsection \<open>Numbers and strings: a small number that is written out parses back\<close>

lemma toNumber_small: "\<bar>n\<bar> < two53 \<Longrightarrow> toNumber n = Finite n"
  by (simp add: toNumber_def)

lemma toNumber_not_NaN: "toNumber n \<noteq> NaN"
  by (simp add: toNumber_def Let_def)

lemma digitChar_code: "k < 10 \<Longrightarrow> (of_char (digitChar k) :: nat) = 48 + k"
  unfolding digitChar_def by (simp add: less_Suc_eq numeral_eq_Suc) auto

lemma isDigit_digitChar: "k < 10 \<Longrightarrow> isDigit (digitChar k)"
  by (simp add: isDigit_def digitChar_code)

lemma digitValue_digitChar: "k < 10 \<Longrightarrow> digitValue (digitChar k) = int k"
  by (simp add: digitValue_def digitChar_code)

lemma isDigit_not_space: "isDigit c \<Longrightarrow> \<not> isStrWhiteSpaceChar c"
  by (auto simp: isDigit_def isStrWhiteSpaceChar_def)

lemma isDigit_not_sign: "isDigit c \<Longrightarrow> c \<noteq> CHR ''+'' \<and> c \<noteq> CHR ''-''"
  by (auto simp: isDigit_def)

lemma sign_not_space:
  "\<not> isStrWhiteSpaceChar CHR ''-''" "\<not> isDigit CHR ''-''"
  "\<not> isStrWhiteSpaceChar CHR ''+''" "\<not> isDigit CHR ''+''"
  by (simp_all add: isStrWhiteSpaceChar_def isDigit_def)

lemma digitsValue_snoc: "digitsValue (Z @ [c]) = 10 * digitsValue Z + digitValue c"
  by (simp add: digitsValue_def)

lemma digitsOf_props:
  "digitsOf n \<noteq> [] \<and> (\<forall>c \<in> set (digitsOf n). isDigit c) \<and> digitsValue (digitsOf n) = int n"
proof (induction n rule: digitsOf.induct)
  case (1 n)
  show ?case
  proof (cases "n < 10")
    case True
    then show ?thesis
      by (simp add: digitsOf.simps [of n] isDigit_digitChar digitValue_digitChar digitsValue_def)
  next
    case False
    have "n mod 10 < 10"
      by simp
    moreover have "10 * int (n div 10) + int (n mod 10) = int n"
      by (simp add: zdiv_int zmod_int)
    ultimately show ?thesis
      using False "1.IH"
      by (simp add: digitsOf.simps [of n] isDigit_digitChar digitValue_digitChar digitsValue_snoc)
  qed
qed

lemma digitValue_range: "isDigit c \<Longrightarrow> 0 \<le> digitValue c \<and> digitValue c \<le> 9"
  by (auto simp: isDigit_def digitValue_def)

lemma digitsValue_nonneg: "\<forall>c \<in> set Z. isDigit c \<Longrightarrow> 0 \<le> digitsValue Z"
proof (induction Z rule: rev_induct)
  case Nil
  then show ?case by (simp add: digitsValue_def)
next
  case (snoc c Z)
  then show ?case
    using digitValue_range [of c] by (simp add: digitsValue_snoc)
qed

lemma positiveToString_small:
  assumes "0 \<le> x" "x < two53"
  shows "positiveToString x = digitsOf (nat x)"
proof -
  have "x < 10 ^ 21"
    using assms(2) by (simp add: two53_def)
  then show ?thesis
    using assms(2) by (simp add: positiveToString_def shortestDecimal_def)
qed

lemma NumberToString_small:
  assumes "\<bar>n\<bar> < two53"
  shows "NumberToString n = (if n < 0 then CHR ''-'' # digitsOf (nat (- n)) else digitsOf (nat n))"
  using assms by (simp add: NumberToString_def toNumber_small positiveToString_small)

text \<open>\<^verbatim>\<open>parseInt\<close> on a string: white space, at most one sign, digits, and anything that
  does not go on with a digit.\<close>

lemma parseInt10_string:
  assumes ws: "\<forall>c \<in> set ws. isStrWhiteSpaceChar c"
    and Z: "Z \<noteq> []" "\<forall>c \<in> set Z. isDigit c"
    and rest: "case rest of [] \<Rightarrow> True | c # cs \<Rightarrow> \<not> isDigit c"
  shows "parseInt10 (JStr (ws @ Z @ rest)) = toNumber (digitsValue Z)"
    and "parseInt10 (JStr (ws @ CHR ''+'' # Z @ rest)) = toNumber (digitsValue Z)"
    and "parseInt10 (JStr (ws @ CHR ''-'' # Z @ rest)) = toNumber (- digitsValue Z)"
proof -
  obtain c cs where Zc: "Z = c # cs"
    using Z(1) by (cases Z) auto
  have c: "isDigit c"
    using Z(2) Zc by simp
  have "takeWhile isDigit rest = []"
    using rest by (cases rest) simp_all
  then have tw: "takeWhile isDigit (Z @ rest) = Z"
    using Z(2) by (simp add: takeWhile_append2)
  have dw: "dropWhile isStrWhiteSpaceChar (ws @ x # xs) = x # xs" if "\<not> isStrWhiteSpaceChar x" for x xs
    using ws that by (simp add: dropWhile_append2)
  have 1: "dropWhile isStrWhiteSpaceChar (ws @ Z @ rest) = Z @ rest"
    using dw [OF isDigit_not_space [OF c], of "cs @ rest"] by (simp add: Zc)
  have h: "hd (Z @ rest) = c" "Z @ rest \<noteq> []"
    by (simp_all add: Zc)
  show "parseInt10 (JStr (ws @ Z @ rest)) = toNumber (digitsValue Z)"
    using isDigit_not_sign [OF c] Z(1)
    by (simp add: parseInt10_def Let_def 1 h tw)
  show "parseInt10 (JStr (ws @ CHR ''+'' # Z @ rest)) = toNumber (digitsValue Z)"
    using Z(1) by (simp add: parseInt10_def Let_def dw [OF sign_not_space(3)] tw)
  show "parseInt10 (JStr (ws @ CHR ''-'' # Z @ rest)) = toNumber (- digitsValue Z)"
    using Z(1) by (simp add: parseInt10_def Let_def dw [OF sign_not_space(1)] tw)
qed

lemma parseInt10_JNum:
  assumes "\<bar>n\<bar> < two53"
  shows "parseInt10 (JNum n) = Finite n"
proof -
  note p = digitsOf_props
  show ?thesis
  proof (cases "n < 0")
    case True
    have "parseInt10 (JStr ([] @ CHR ''-'' # digitsOf (nat (- n)) @ [])) =
        toNumber (- digitsValue (digitsOf (nat (- n))))"
      using p [of "nat (- n)"] by (intro parseInt10_string(3)) simp_all
    then show ?thesis
      using True p [of "nat (- n)"] assms
      by (simp add: parseInt10_def NumberToString_small toNumber_small)
  next
    case False
    have "parseInt10 (JStr ([] @ digitsOf (nat n) @ [])) = toNumber (digitsValue (digitsOf (nat n)))"
      using p [of "nat n"] by (intro parseInt10_string(1)) simp_all
    then show ?thesis
      using False p [of "nat n"] assms
      by (simp add: parseInt10_def NumberToString_small toNumber_small)
  qed
qed

lemma parseNum_JNum: "\<bar>n\<bar> < two53 \<Longrightarrow> parseNum (JNum n) = Some (Finite n)"
  by (simp add: parseNum_def parseInt10_JNum)

lemma parseNum_string:
  assumes "\<forall>c \<in> set ws. isStrWhiteSpaceChar c" "Z \<noteq> []" "\<forall>c \<in> set Z. isDigit c"
    "case rest of [] \<Rightarrow> True | c # cs \<Rightarrow> \<not> isDigit c" "digitsValue Z < two53"
  shows "parseNum (JStr (ws @ Z @ rest)) = Some (Finite (digitsValue Z))"
    and "parseNum (JStr (ws @ CHR ''+'' # Z @ rest)) = Some (Finite (digitsValue Z))"
    and "parseNum (JStr (ws @ CHR ''-'' # Z @ rest)) = Some (Finite (- digitsValue Z))"
proof -
  have "0 \<le> digitsValue Z"
    using assms(3) by (rule digitsValue_nonneg)
  then have "\<bar>digitsValue Z\<bar> < two53" "\<bar>- digitsValue Z\<bar> < two53"
    using assms(5) by simp_all
  then show "parseNum (JStr (ws @ Z @ rest)) = Some (Finite (digitsValue Z))"
    and "parseNum (JStr (ws @ CHR ''+'' # Z @ rest)) = Some (Finite (digitsValue Z))"
    and "parseNum (JStr (ws @ CHR ''-'' # Z @ rest)) = Some (Finite (- digitsValue Z))"
    by (simp_all add: parseNum_def parseInt10_string [OF assms(1-4)] toNumber_small)
qed


lemma parseNum_absent:
  "parseNum JNull = None" "parseNum JUndefined = None" "parseNum JNaN = None"
  "parseNum JInfinity = None" "parseNum JNegInfinity = None" "parseNum (JStr []) = None"
  by (simp_all add: parseNum_def parseInt10_def isStrWhiteSpaceChar_def isDigit_def)

subsection \<open>Which strings parse\<close>








subsection \<open>The calendar: \<open>YearFromTime\<close> meets its specification, and a date is read back\<close>

lemma DaysInYear_bounds: "365 \<le> DaysInYear y" "DaysInYear y \<le> 366"
  by (simp_all add: DaysInYear_def)

lemma DayFromYear_less: "y < y' \<Longrightarrow> DayFromYear y < DayFromYear y'"
proof (induction y' rule: int_gr_induct)
  case base
  then show ?case
    using DaysInYear_pos [of y] by (simp add: DayFromYear_Suc)
next
  case (step i)
  then show ?case
    using DaysInYear_pos [of i] by (simp add: DayFromYear_Suc)
qed

lemma DayFromYear_mono: "y \<le> y' \<Longrightarrow> DayFromYear y \<le> DayFromYear y'"
  using DayFromYear_less [of y y'] by (cases "y = y'") simp_all

lemma DayFromYear_1970: "DayFromYear 1970 = 0"
  by (simp add: DayFromYear_def)

lemma DayFromYear_upper: "0 \<le> k \<Longrightarrow> DayFromYear (1970 + k) \<le> 366 * k"
proof (induction k rule: int_ge_induct)
  case base
  then show ?case by (simp add: DayFromYear_1970)
next
  case (step i)
  have "DayFromYear (1970 + (i + 1)) = DayFromYear (1970 + i) + DaysInYear (1970 + i)"
    using DayFromYear_Suc [of "1970 + i"] by (simp add: add.assoc)
  then show ?case
    using step.IH DaysInYear_bounds(2) [of "1970 + i"] by simp
qed

lemma DayFromYear_lower: "k \<le> 0 \<Longrightarrow> DayFromYear (1970 + k) \<le> 365 * k"
proof (induction k rule: int_le_induct)
  case base
  then show ?case by (simp add: DayFromYear_1970)
next
  case (step i)
  have "DayFromYear (1970 + (i - 1) + 1) = DayFromYear (1970 + (i - 1)) + DaysInYear (1970 + (i - 1))"
    by (rule DayFromYear_Suc)
  moreover have "1970 + (i - 1) + 1 = 1970 + i"
    by simp
  ultimately have "DayFromYear (1970 + (i - 1)) = DayFromYear (1970 + i) - DaysInYear (1970 + (i - 1))"
    by simp
  then show ?case
    using step.IH DaysInYear_bounds(1) [of "1970 + (i - 1)"] by simp
qed

lemma year_estimate:
  "DayFromYear (1970 + (if 0 \<le> d then d div 366 else d div 365)) \<le> d"
proof (cases "0 \<le> d")
  case True
  then have "0 \<le> d div 366"
    by simp
  then have "DayFromYear (1970 + d div 366) \<le> 366 * (d div 366)"
    by (rule DayFromYear_upper)
  moreover have "366 * (d div 366) \<le> d"
    using mult_div_mod_eq [of 366 d] pos_mod_sign [of 366 d] by linarith
  ultimately show ?thesis
    using True by simp
next
  case False
  then have "d div 365 \<le> 0"
    by (simp add: div_int_pos_iff not_le) 
  then have "DayFromYear (1970 + d div 365) \<le> 365 * (d div 365)"
    by (rule DayFromYear_lower)
  moreover have "365 * (d div 365) \<le> d"
    using mult_div_mod_eq [of 365 d] pos_mod_sign [of 365 d] by linarith
  ultimately show ?thesis
    using False by simp
qed

lemma yearFrom_bounds:
  "DayFromYear y \<le> d \<Longrightarrow>
   DayFromYear (yearFrom d y) \<le> d \<and> d < DayFromYear (yearFrom d y + 1)"
proof (induction d y rule: yearFrom.induct)
  case (1 d y)
  show ?case
  proof (cases "DayFromYear (y + 1) \<le> d")
    case True
    with "1.IH" show ?thesis
      by (simp add: yearFrom.simps [of d y])
  next
    case False
    with "1.prems" show ?thesis
      by (simp add: yearFrom.simps [of d y])
  qed
qed

lemma YearFromTime_bounds:
  "DayFromYear (YearFromTime t) \<le> Day t \<and> Day t < DayFromYear (YearFromTime t + 1)"
  unfolding YearFromTime_def Let_def by (rule yearFrom_bounds) (rule year_estimate)

lemma YearFromTime_eq:
  assumes "DayFromYear y \<le> Day t" and "Day t < DayFromYear (y + 1)"
  shows "YearFromTime t = y"
proof (rule ccontr)
  assume ne: "YearFromTime t \<noteq> y"
  note b = YearFromTime_bounds [of t]
  show False
  proof (cases "YearFromTime t < y")
    case True
    then have "DayFromYear (YearFromTime t + 1) \<le> DayFromYear y"
      by (intro DayFromYear_mono) simp
    with b assms show False by simp
  next
    case False
    with ne have "DayFromYear (y + 1) \<le> DayFromYear (YearFromTime t)"
      by (intro DayFromYear_mono) simp
    with b assms show False by simp
  qed
qed

lemma le_div_iff:
  fixes a k t :: int
  assumes "0 < k"
  shows "k * a \<le> t \<longleftrightarrow> a \<le> t div k"
proof
  assume "k * a \<le> t"
  then have "(k * a) div k \<le> t div k"
    using assms by (intro zdiv_mono1) simp_all
  then show "a \<le> t div k"
    using assms by simp
next
  assume "a \<le> t div k"
  then have "k * a \<le> k * (t div k)"
    using assms by (intro mult_left_mono) simp_all
  moreover have "k * (t div k) \<le> t"
    using mult_div_mod_eq [of k t] pos_mod_sign [OF assms, of t] by linarith
  ultimately show "k * a \<le> t"
    by simp
qed

lemma YearFromTime_spec:
  "TimeFromYear (YearFromTime t) \<le> t \<and> (\<forall>y. TimeFromYear y \<le> t \<longrightarrow> y \<le> YearFromTime t)"
proof -
  have iff: "TimeFromYear y \<le> t \<longleftrightarrow> DayFromYear y \<le> Day t" for y
    unfolding TimeFromYear_def Day_def by (rule le_div_iff) (simp add: msPerDay_def)
  note b = YearFromTime_bounds [of t]
  have "y \<le> YearFromTime t" if "DayFromYear y \<le> Day t" for y
  proof (rule ccontr)
    assume "\<not> y \<le> YearFromTime t"
    then have "DayFromYear (YearFromTime t + 1) \<le> DayFromYear y"
      by (intro DayFromYear_mono) simp
    with b that show False by simp
  qed
  with b show ?thesis
    by (simp add: iff)
qed

lemma month_cases:
  fixes mn :: int
  assumes "0 \<le> mn" "mn \<le> 11"
  shows "mn = 0 \<or> mn = 1 \<or> mn = 2 \<or> mn = 3 \<or> mn = 4 \<or> mn = 5 \<or> mn = 6 \<or> mn = 7 \<or> mn = 8
    \<or> mn = 9 \<or> mn = 10 \<or> mn = 11"
  using assms by arith

lemma leap_flag: "(if DaysInYear y = 366 then 1 else 0) = DaysInYear y - (365::int)"
  by (simp add: DaysInYear_def)

lemma day_in_year:
  assumes "0 \<le> mn" "mn \<le> 11" "1 \<le> dd" "dd \<le> daysInMonth mn L" "0 \<le> L"
  shows "0 \<le> monthStart mn L + dd - 1 \<and> monthStart mn L + dd - 1 < 365 + L"
  using month_cases [OF assms(1,2)] assms(3-5)
  by (elim disjE) (simp_all add: monthStart_def daysInMonth_def)

lemma month_of_day:
  assumes "0 \<le> mn" "mn \<le> 11" "1 \<le> dd" "dd \<le> daysInMonth mn L" "0 \<le> L"
    and "DayWithinYear t = monthStart mn L + dd - 1" and "InLeapYear t = L"
  shows "MonthFromTime t = mn"
  using month_cases [OF assms(1,2)] assms(3-5)
  by (elim disjE) (simp_all add: MonthFromTime_def assms(6,7) monthStart_def daysInMonth_def)

lemma date_of_day:
  assumes "0 \<le> mn" "mn \<le> 11"
    and "DayWithinYear t = monthStart mn L + dd - 1" and "InLeapYear t = L" and "MonthFromTime t = mn"
  shows "DateFromTime t = dd"
  using month_cases [OF assms(1,2)]
  by (elim disjE) (simp_all add: DateFromTime_def assms(3-5) monthStart_def)

lemma civil_of_day:
  assumes mn: "0 \<le> mn" "mn \<le> 11" and dd: "1 \<le> dd" "dd \<le> daysInMonth mn (DaysInYear y - 365)"
    and d: "Day t = DayFromYear y + monthStart mn (DaysInYear y - 365) + dd - 1"
  shows "YearFromTime t = y \<and> MonthFromTime t = mn \<and> DateFromTime t = dd"
proof -
  let ?L = "DaysInYear y - 365"
  have L: "0 \<le> ?L"
    using DaysInYear_bounds(1) [of y] by simp
  note b = day_in_year [OF mn dd L]
  have y: "YearFromTime t = y"
    using b d by (intro YearFromTime_eq) (simp_all add: DayFromYear_Suc)
  have w: "DayWithinYear t = monthStart mn ?L + dd - 1"
    by (simp add: DayWithinYear_def y d)
  have l: "InLeapYear t = ?L"
    by (simp add: InLeapYear_def y leap_flag)
  have m: "MonthFromTime t = mn"
    by (rule month_of_day [OF mn dd L w l])
  have "DateFromTime t = dd"
    by (rule date_of_day [OF mn w l m])
  with y m show ?thesis
    by simp
qed


text \<open>The year of a time value is small.\<close>

lemma Day_range: "\<bar>t\<bar> \<le> maxTime \<Longrightarrow> - 100000000 \<le> Day t \<and> Day t \<le> 100000000"
  unfolding Day_def msPerDay_def maxTime_def
  using zdiv_mono1 [of t 8640000000000000 86400000] zdiv_mono1 [of "- 8640000000000000" t 86400000]
  by simp

lemma YearFromTime_range:
  assumes "\<bar>t\<bar> \<le> maxTime"
  shows "- 300000 < YearFromTime t \<and> YearFromTime t < 300000"
proof -
  note b = YearFromTime_bounds [of t] and d = Day_range [OF assms]
  have hi: "DayFromYear 300000 = 108853222" and lo: "DayFromYear (- 299999) = - 110291912"
    by (simp_all add: DayFromYear_def)
  have "YearFromTime t < 300000"
  proof (rule ccontr)
    assume "\<not> YearFromTime t < 300000"
    then have "DayFromYear 300000 \<le> DayFromYear (YearFromTime t)"
      by (intro DayFromYear_mono) simp
    with b d hi show False by simp
  qed
  moreover have "- 300000 < YearFromTime t"
  proof (rule ccontr)
    assume "\<not> - 300000 < YearFromTime t"
    then have "DayFromYear (YearFromTime t + 1) \<le> DayFromYear (- 299999)"
      by (intro DayFromYear_mono) simp
    with b d lo show False by simp
  qed
  ultimately show ?thesis by simp
qed

subsection \<open>What the getters return\<close>

lemma MonthFromTime_range: "0 \<le> MonthFromTime t \<and> MonthFromTime t \<le> 11"
  by (simp add: MonthFromTime_def Let_def)

lemma InLeapYear_eq: "InLeapYear t = DaysInYear (YearFromTime t) - 365"
  by (simp add: InLeapYear_def leap_flag)

lemma InLeapYear_cases: "InLeapYear t = 0 \<or> InLeapYear t = 1"
  by (simp add: InLeapYear_def)

lemma DayWithinYear_range: "0 \<le> DayWithinYear t \<and> DayWithinYear t < 365 + InLeapYear t"
  using YearFromTime_bounds [of t]
  by (simp add: DayWithinYear_def InLeapYear_eq DayFromYear_Suc)

lemma DateFromTime_eq:
  "DateFromTime t = DayWithinYear t - monthStart (MonthFromTime t) (InLeapYear t) + 1"
proof -
  have "0 \<le> MonthFromTime t" "MonthFromTime t \<le> 11"
    using MonthFromTime_range [of t] by simp_all
  then show ?thesis
    by (rule month_cases [THEN disjE]) (simp_all add: DateFromTime_def monthStart_def Let_def)
qed

lemma month_interval:
  "monthStart (MonthFromTime t) (InLeapYear t) \<le> DayWithinYear t \<and>
   DayWithinYear t <
     monthStart (MonthFromTime t) (InLeapYear t) + daysInMonth (MonthFromTime t) (InLeapYear t)"
  using DayWithinYear_range [of t] InLeapYear_cases [of t]
  by (auto simp: MonthFromTime_def Let_def monthStart_def daysInMonth_def)

lemma DateFromTime_range:
  "1 \<le> DateFromTime t \<and> DateFromTime t \<le> daysInMonth (MonthFromTime t) (InLeapYear t)"
  using month_interval [of t] by (simp add: DateFromTime_eq)

lemma Day_civil:
  "Day t = civilDay (YearFromTime t) (MonthFromTime t) (DateFromTime t)"
  by (simp add: civilDay_def DateFromTime_eq DayWithinYear_def InLeapYear_eq)

lemma daysInMonth_le: "L \<le> 1 \<Longrightarrow> daysInMonth mn L \<le> 31"
  by (simp add: daysInMonth_def)

lemma DateFromTime_small: "1 \<le> DateFromTime t \<and> DateFromTime t \<le> 31"
proof -
  have "InLeapYear t \<le> 1"
    using InLeapYear_cases [of t] by auto
  from daysInMonth_le [OF this, of "MonthFromTime t"] DateFromTime_range [of t] show ?thesis
    by simp
qed

lemma Day_of_days: "Day (k * msPerDay) = k"
  by (simp add: Day_def msPerDay_def)

lemma TimeClip_idem: "TimeClip (TimeClip v) = TimeClip v"
  by (simp add: TimeClip_def split: number.splits)

lemma TimeClip_cases:
  obtains "TimeClip v = NaN" | t where "TimeClip v = Finite t" "\<bar>t\<bar> \<le> maxTime"
proof (cases v)
  case (Finite t)
  show ?thesis
  proof (cases "\<bar>t\<bar> > maxTime")
    case True
    with Finite that(1) show ?thesis by (simp add: TimeClip_def)
  next
    case False
    with Finite that(2) [of t] show ?thesis by (simp add: TimeClip_def)
  qed
qed (use that(1) in \<open>simp_all add: TimeClip_def\<close>)

text \<open>The getters of a date give \<open>NaN\<close> or small numbers, so adding one to the month is
  exact.\<close>

lemma getters_cases:
  obtains "getUTCFullYear d = NaN" "getUTCMonth d = NaN" "getUTCDate d = NaN"
  | t where "timeValue d = Finite t" "getUTCFullYear d = Finite (YearFromTime t)"
      "getUTCMonth d = Finite (MonthFromTime t)" "getUTCDate d = Finite (DateFromTime t)"
      "addNumber (getUTCMonth d) 1 = Finite (MonthFromTime t + 1)"
proof (cases "timeValue d")
  case (Finite t)
  have "\<bar>MonthFromTime t + 1\<bar> < two53"
    using MonthFromTime_range [of t] by (simp add: two53_def)
  then have "addNumber (Finite (MonthFromTime t)) 1 = Finite (MonthFromTime t + 1)"
    by (simp add: toNumber_small)
  with Finite that(2) [of t] show ?thesis
    by (simp add: getUTCFullYear_def getUTCMonth_def getUTCDate_def)
qed (use that(1) in \<open>simp_all add: getUTCFullYear_def getUTCMonth_def getUTCDate_def\<close>)

lemma month_getter_small:
  assumes "addNumber (getUTCMonth d) 1 = Finite mn"
  shows "1 \<le> mn \<and> mn \<le> 12"
proof (cases d rule: getters_cases)
  case 1
  with assms show ?thesis by simp
next
  case (2 t)
  with assms MonthFromTime_range [of t] show ?thesis by auto
qed

lemma strictEqualsNumber_Finite [simp]: "strictEqualsNumber a (Finite x) \<longleftrightarrow> a = Finite x"
  by (auto simp: strictEqualsNumber_def)

lemma isValidDate_Finite:
  "isValidDate d (Finite yn) (Finite mn) (Finite dn) \<longleftrightarrow>
    getUTCFullYear d = Finite yn \<and> addNumber (getUTCMonth d) 1 = Finite mn \<and> getUTCDate d = Finite dn"
  by (simp add: isValidDate_def)

text \<open>A date only ever matches finite fields: the getters return nothing else.\<close>

lemma isValidDate_finite:
  assumes "isValidDate d yn mn dn"
  obtains y m dd where "yn = Finite y" "mn = Finite m" "dn = Finite dd"
proof (cases d rule: getters_cases)
  case 1
  with assms show ?thesis
    by (simp add: isValidDate_def strictEqualsNumber_def)
next
  case (2 t)
  from assms have "yn = getUTCFullYear d" "mn = addNumber (getUTCMonth d) 1" "dn = getUTCDate d"
    by (simp_all add: isValidDate_def strictEqualsNumber_def)
  with 2 show ?thesis
    by (intro that [of "YearFromTime t" "MonthFromTime t + 1" "DateFromTime t"]) simp_all
qed

subsection \<open>The composer on fields that parse\<close>

lemma dateFromSelected_None:
  "parseNum (day sel) = None \<or> parseNum (month sel) = None \<or> parseNum (year sel) = None
    \<Longrightarrow> dateFromSelected sel = None"
  by (auto simp: dateFromSelected_def split: option.splits)

text \<open>Subtracting one from the month is rounded; where that matters the month is far too
  large to be read back, and no date results either way.\<close>

lemma dateFromSelected_finite:
  assumes "parseNum (day sel) = Some (Finite dn)" "parseNum (month sel) = Some (Finite mn)"
    "parseNum (year sel) = Some (Finite yn)"
  shows "dateFromSelected sel =
    (let d = newDate (Date_UTC yn (mn - 1) dn)
     in if getUTCFullYear d = Finite yn \<and> addNumber (getUTCMonth d) 1 = Finite mn
           \<and> getUTCDate d = Finite dn
        then Some d else None)"
proof (cases "1 \<le> mn \<and> mn \<le> 12")
  case True
  then have "\<bar>mn + - 1\<bar> < two53"
    by (simp add: two53_def)
  then have "addNumber (Finite mn) (- 1) = Finite (mn - 1)"
    by (simp add: toNumber_small)
  then show ?thesis
    by (simp add: dateFromSelected_def assms isValidDate_Finite Let_def)
next
  case False
  then have "addNumber (getUTCMonth d) 1 \<noteq> Finite mn" for d
    using month_getter_small [of d mn] by auto
  then show ?thesis
    by (simp add: dateFromSelected_def assms isValidDate_Finite Let_def)
qed

lemma dateFromSelected_Some:
  assumes "dateFromSelected sel = Some date"
  obtains dn mn yn where "parseNum (day sel) = Some (Finite dn)"
    "parseNum (month sel) = Some (Finite mn)" "parseNum (year sel) = Some (Finite yn)"
    "date = newDate (Date_UTC yn (mn - 1) dn)"
    "getUTCFullYear date = Finite yn" "addNumber (getUTCMonth date) 1 = Finite mn"
    "getUTCDate date = Finite dn"
proof -
  from assms obtain dn' mn' yn' d where p: "parseNum (day sel) = Some dn'"
    "parseNum (month sel) = Some mn'" "parseNum (year sel) = Some yn'"
    and v: "isValidDate d yn' mn' dn'"
    by (auto simp: dateFromSelected_def Let_def split: option.splits if_splits)
  from v obtain yn mn dn where f: "yn' = Finite yn" "mn' = Finite mn" "dn' = Finite dn"
    by (rule isValidDate_finite)
  note q = p [unfolded f]
  from assms dateFromSelected_finite [OF q] show ?thesis
    using that [OF q] by (auto simp: Let_def split: if_splits)
qed

lemma getters_civil:
  assumes "0 \<le> mn" "mn \<le> 11" "1 \<le> dd" "dd \<le> daysInMonth mn (DaysInYear y - 365)"
  shows "getUTCFullYear (Date (Finite (civilDay y mn dd * msPerDay))) = Finite y"
    and "getUTCMonth (Date (Finite (civilDay y mn dd * msPerDay))) = Finite mn"
    and "getUTCDate (Date (Finite (civilDay y mn dd * msPerDay))) = Finite dd"
  using civil_of_day [OF assms, of "civilDay y mn dd * msPerDay"]
  by (simp_all add: getUTCFullYear_def getUTCMonth_def getUTCDate_def Day_of_days civilDay_def)

lemma dateFromSelected_reads:
  assumes p: "parseNum (day sel) = Some (Finite dn)" "parseNum (month sel) = Some (Finite m)"
      "parseNum (year sel) = Some (Finite yn)"
    and u: "Date_UTC yn (m - 1) dn = Finite (civilDay y' mn' dd' * msPerDay)"
    and c: "0 \<le> mn'" "mn' \<le> 11" "1 \<le> dd'" "dd' \<le> daysInMonth mn' (DaysInYear y' - 365)"
  shows "dateFromSelected sel =
    (if y' = yn \<and> mn' + 1 = m \<and> dd' = dn then Some (Date (Finite (civilDay y' mn' dd' * msPerDay)))
     else None)"
proof -
  have "TimeClip (Date_UTC yn (m - 1) dn) = Date_UTC yn (m - 1) dn"
    by (simp add: Date_UTC_def TimeClip_idem)
  then have n: "newDate (Date_UTC yn (m - 1) dn) = Date (Finite (civilDay y' mn' dd' * msPerDay))"
    by (simp add: newDate_def u)
  have "\<bar>mn' + 1\<bar> < two53"
    using c(1,2) by (simp add: two53_def)
  then have a: "toNumber (mn' + 1) = Finite (mn' + 1)"
    by (simp add: toNumber_small)
  show ?thesis
    by (simp add: dateFromSelected_finite [OF p] n getters_civil [OF c] a)
qed

subsection \<open>Three dates of the calendar\<close>

lemma DayFromYear_2023: "DayFromYear 2023 = 19358" "DaysInYear 2023 = 365"
  by (simp_all add: DayFromYear_def DaysInYear_def)

lemma DayFromYear_2024: "DayFromYear 2024 = 19723" "DaysInYear 2024 = 366"
  by (simp_all add: DayFromYear_def DaysInYear_def)

lemma Date_UTC_2023_04_31: "Date_UTC 2023 3 31 = Finite (civilDay 2023 4 1 * msPerDay)"
proof -
  have "MakeDay 2023 3 31 = 19478"
    by (simp add: MakeDay_def DayFromYear_2023 monthStart_def)
  moreover have "civilDay 2023 4 1 = 19478"
    by (simp add: civilDay_def DayFromYear_2023 monthStart_def)
  ultimately show ?thesis
    by (simp add: Date_UTC_def MakeDate_def TimeClip_def msPerDay_def maxTime_def)
qed

lemma Date_UTC_2023_02_29: "Date_UTC 2023 1 29 = Finite (civilDay 2023 2 1 * msPerDay)"
proof -
  have "MakeDay 2023 1 29 = 19417"
    by (simp add: MakeDay_def DayFromYear_2023 monthStart_def)
  moreover have "civilDay 2023 2 1 = 19417"
    by (simp add: civilDay_def DayFromYear_2023 monthStart_def)
  ultimately show ?thesis
    by (simp add: Date_UTC_def MakeDate_def TimeClip_def msPerDay_def maxTime_def)
qed

lemma Date_UTC_2024_02_29: "Date_UTC 2024 1 29 = Finite (civilDay 2024 1 29 * msPerDay)"
  "civilDay 2024 1 29 * msPerDay = 1709164800000"
proof -
  have "MakeDay 2024 1 29 = 19782"
    by (simp add: MakeDay_def DayFromYear_2024 monthStart_def)
  moreover have c: "civilDay 2024 1 29 = 19782"
    by (simp add: civilDay_def DayFromYear_2024 monthStart_def)
  ultimately show "Date_UTC 2024 1 29 = Finite (civilDay 2024 1 29 * msPerDay)"
    by (simp add: Date_UTC_def MakeDate_def TimeClip_def msPerDay_def maxTime_def)
  show "civilDay 2024 1 29 * msPerDay = 1709164800000"
    by (simp add: c msPerDay_def)
qed

lemma parseNum_small [simp]:
  "parseNum (JNum 1) = Some (Finite 1)" "parseNum (JNum 2) = Some (Finite 2)"
  "parseNum (JNum 4) = Some (Finite 4)" "parseNum (JNum 15) = Some (Finite 15)"
  "parseNum (JNum 29) = Some (Finite 29)" "parseNum (JNum 31) = Some (Finite 31)"
  "parseNum (JNum 2020) = Some (Finite 2020)" "parseNum (JNum 2023) = Some (Finite 2023)"
  "parseNum (JNum 2024) = Some (Finite 2024)"
  by (simp_all add: parseNum_JNum two53_def)

lemma compose_2023_04_31: "dateFromSelected \<lparr>day = JNum 31, month = JNum 4, year = JNum 2023\<rparr> = None"
  using dateFromSelected_reads [of "\<lparr>day = JNum 31, month = JNum 4, year = JNum 2023\<rparr>" 31 4 2023 2023 4 1]
  by (simp add: Date_UTC_2023_04_31 daysInMonth_def)

lemma compose_2023_02_29: "dateFromSelected \<lparr>day = JNum 29, month = JNum 2, year = JNum 2023\<rparr> = None"
  using dateFromSelected_reads [of "\<lparr>day = JNum 29, month = JNum 2, year = JNum 2023\<rparr>" 29 2 2023 2023 2 1]
  by (simp add: Date_UTC_2023_02_29 daysInMonth_def)

lemma compose_2024_02_29:
  "dateFromSelected \<lparr>day = JNum 29, month = JNum 2, year = JNum 2024\<rparr> = Some (Date (Finite 1709164800000))"
  using dateFromSelected_reads [of "\<lparr>day = JNum 29, month = JNum 2, year = JNum 2024\<rparr>" 29 2 2024 2024 1 29]
  by (simp add: Date_UTC_2024_02_29 daysInMonth_def DayFromYear_2024)

subsection \<open>A change of one field\<close>

lemma dateFromSelected_cong:
  assumes "parseNum (day a) = parseNum (day b)" "parseNum (month a) = parseNum (month b)"
    "parseNum (year a) = parseNum (year b)"
  shows "dateFromSelected a = dateFromSelected b"
  by (simp add: dateFromSelected_def assms)


lemma getField_handleSelectChange:
  "getField type' (selected (handleSelectChange w type v)) =
    (if type' = type then parsedVal (parseNum v) else getField type' (selected w))"
  by (cases type; cases type') (simp_all add: handleSelectChange_def Let_def)

subsection \<open>Composing and decomposing\<close>

text \<open>The date that a selection composes to lies in the range of time values, so its year
  is small, and what \<open>selectedFromDate\<close> reads from it parses to itself.\<close>

lemma dateFromSelected_time:
  assumes "dateFromSelected sel = Some date"
  obtains t where "date = Date (Finite t)" "\<bar>t\<bar> \<le> maxTime"
proof -
  from assms obtain dn mn yn where n: "date = newDate (Date_UTC yn (mn - 1) dn)"
    and g: "getUTCFullYear date = Finite yn"
    by (rule dateFromSelected_Some)
  show ?thesis
  proof (cases "Date_UTC yn (mn - 1) dn" rule: TimeClip_cases)
    case 1
    with n g show ?thesis
      by (simp add: newDate_def getUTCFullYear_def)
  next
    case (2 t)
    with n that [of t] show ?thesis
      by (simp add: newDate_def)
  qed
qed

lemma selectedFromDate_composed:
  assumes "dateFromSelected sel = Some date"
  obtains dn mn yn where "parseNum (day sel) = Some (Finite dn)"
    "parseNum (month sel) = Some (Finite mn)" "parseNum (year sel) = Some (Finite yn)"
    "selectedFromDate date = \<lparr>day = JNum dn, month = JNum mn, year = JNum yn\<rparr>"
    "parseNum (JNum dn) = Some (Finite dn)" "parseNum (JNum mn) = Some (Finite mn)"
    "parseNum (JNum yn) = Some (Finite yn)"
proof -
  from assms obtain dn mn yn where p: "parseNum (day sel) = Some (Finite dn)"
    "parseNum (month sel) = Some (Finite mn)" "parseNum (year sel) = Some (Finite yn)"
    and g: "getUTCFullYear date = Finite yn" "addNumber (getUTCMonth date) 1 = Finite mn"
    "getUTCDate date = Finite dn"
    by (rule dateFromSelected_Some)
  from assms obtain t where t: "date = Date (Finite t)" "\<bar>t\<bar> \<le> maxTime"
    by (rule dateFromSelected_time)
  from g(1,3) t(1) have e: "yn = YearFromTime t" "dn = DateFromTime t"
    by (simp_all add: getUTCFullYear_def getUTCDate_def)
  have "\<bar>yn\<bar> < two53"
    using YearFromTime_range [OF t(2)] unfolding e two53_def by linarith
  moreover have "\<bar>mn\<bar> < two53"
    using month_getter_small [OF g(2)] unfolding two53_def by linarith
  moreover have "\<bar>dn\<bar> < two53"
    using DateFromTime_small [of t] unfolding e two53_def by linarith
  ultimately have q: "parseNum (JNum dn) = Some (Finite dn)"
    "parseNum (JNum mn) = Some (Finite mn)" "parseNum (JNum yn) = Some (Finite yn)"
    by (simp_all add: parseNum_JNum)
  have "selectedFromDate date = \<lparr>day = JNum dn, month = JNum mn, year = JNum yn\<rparr>"
    by (simp add: selectedFromDate_def g)
  then show ?thesis
    using p q by (intro that)
qed

lemma roundtrip:
  assumes "dateFromSelected sel = Some date"
  shows "dateFromSelected (selectedFromDate date) = Some date"
proof -
  from assms obtain dn mn yn where p: "parseNum (day sel) = Some (Finite dn)"
    "parseNum (month sel) = Some (Finite mn)" "parseNum (year sel) = Some (Finite yn)"
    and s: "selectedFromDate date = \<lparr>day = JNum dn, month = JNum mn, year = JNum yn\<rparr>"
    and q: "parseNum (JNum dn) = Some (Finite dn)" "parseNum (JNum mn) = Some (Finite mn)"
    "parseNum (JNum yn) = Some (Finite yn)"
    by (rule selectedFromDate_composed)
  have "dateFromSelected \<lparr>day = JNum dn, month = JNum mn, year = JNum yn\<rparr> = dateFromSelected sel"
    by (rule dateFromSelected_cong) (simp_all add: p q)
  with s assms show ?thesis
    by simp
qed

subsection \<open>Which selections compose to a date\<close>

lemma MakeDay_civil:
  assumes "0 \<le> mn" "mn \<le> 11"
  shows "MakeDay y mn dd = civilDay y mn dd"
proof -
  have "mn div 12 = 0" "mn mod 12 = mn"
    using assms by simp_all
  moreover have "DayFromYear y + monthStart mn (if DaysInYear y = 366 then 1 else 0) + dd - 1
      = civilDay y mn dd"
    by (simp add: civilDay_def leap_flag)
  ultimately show ?thesis
    by (simp add: MakeDay_def Let_def)
qed

text \<open>Every day of the calendar (outside the years 0 to 99, inside the range of time values)
  composes to its date.\<close>

lemma dateFromSelected_existing:
  assumes p: "parseNum (day sel) = Some (Finite dn)" "parseNum (month sel) = Some (Finite m)"
      "parseNum (year sel) = Some (Finite yn)"
    and y: "\<not> (0 \<le> yn \<and> yn \<le> 99)"
    and m: "1 \<le> m" "m \<le> 12"
    and d: "1 \<le> dn" "dn \<le> daysInMonth (m - 1) (DaysInYear yn - 365)"
    and r: "\<bar>civilDay yn (m - 1) dn * msPerDay\<bar> \<le> maxTime"
  shows "dateFromSelected sel = Some (Date (Finite (civilDay yn (m - 1) dn * msPerDay)))"
proof -
  have mn: "0 \<le> m - 1" "m - 1 \<le> 11"
    using m by simp_all
  have "MakeDay yn (m - 1) dn = civilDay yn (m - 1) dn"
    by (rule MakeDay_civil [OF mn])
  moreover have "(if 0 \<le> yn \<and> yn \<le> 99 then 1900 + yn else yn) = yn"
    using y by auto
  ultimately have u: "Date_UTC yn (m - 1) dn = Finite (civilDay yn (m - 1) dn * msPerDay)"
    using r by (simp add: Date_UTC_def MakeDate_def TimeClip_def)
  show ?thesis
    using dateFromSelected_reads [OF p u mn d] by simp
qed

lemma monthStart_nonneg: "0 \<le> L \<Longrightarrow> 0 \<le> monthStart mn L"
  by (simp add: monthStart_def)

lemma civilDay_in_year:
  assumes "0 \<le> mn" "mn \<le> 11" "1 \<le> dd" "dd \<le> daysInMonth mn (DaysInYear y - 365)"
  shows "DayFromYear y \<le> civilDay y mn dd \<and> civilDay y mn dd < DayFromYear (y + 1)"
proof -
  have "0 \<le> DaysInYear y - 365"
    using DaysInYear_bounds(1) [of y] by simp
  from day_in_year [OF assms this] show ?thesis
    by (simp add: civilDay_def DayFromYear_Suc)
qed

lemma civilDay_lower: "1 \<le> dd \<Longrightarrow> DayFromYear y \<le> civilDay y mn dd"
  using monthStart_nonneg [of "DaysInYear y - 365" mn] DaysInYear_bounds(1) [of y]
  by (simp add: civilDay_def)

lemma Date_UTC_Finite:
  assumes "Date_UTC yn mn dn = Finite t" "0 \<le> mn" "mn \<le> 11"
  shows "t = civilDay (if 0 \<le> yn \<and> yn \<le> 99 then 1900 + yn else yn) mn dn * msPerDay
    \<and> \<bar>t\<bar> \<le> maxTime"
proof -
  define yr where "yr = (if 0 \<le> yn \<and> yn \<le> 99 then 1900 + yn else yn)"
  have "TimeClip (Finite (MakeDate (MakeDay yr mn dn) 0)) = Finite t"
    using assms(1) by (simp add: Date_UTC_def Let_def yr_def)
  then have "TimeClip (Finite (civilDay yr mn dn * msPerDay)) = Finite t"
    by (simp only: MakeDay_civil [OF assms(2,3)] MakeDate_def add_0_right)
  then have "t = civilDay yr mn dn * msPerDay \<and> \<bar>t\<bar> \<le> maxTime"
    by (cases "maxTime < \<bar>civilDay yr mn dn * msPerDay\<bar>") (auto simp: TimeClip_def)
  then show ?thesis
    unfolding yr_def .
qed

text \<open>Only a day of the calendar composes to a date.\<close>

lemma dateFromSelected_only_existing:
  assumes "dateFromSelected sel = Some date"
  obtains dn m yn where "parseNum (day sel) = Some (Finite dn)"
    "parseNum (month sel) = Some (Finite m)" "parseNum (year sel) = Some (Finite yn)"
    "\<not> (0 \<le> yn \<and> yn \<le> 99)" "1 \<le> m" "m \<le> 12"
    "1 \<le> dn" "dn \<le> daysInMonth (m - 1) (DaysInYear yn - 365)"
    "\<bar>civilDay yn (m - 1) dn * msPerDay\<bar> \<le> maxTime"
    "date = Date (Finite (civilDay yn (m - 1) dn * msPerDay))"
proof -
  from assms obtain dn m yn where p: "parseNum (day sel) = Some (Finite dn)"
    "parseNum (month sel) = Some (Finite m)" "parseNum (year sel) = Some (Finite yn)"
    and n: "date = newDate (Date_UTC yn (m - 1) dn)"
    and v: "getUTCFullYear date = Finite yn" "addNumber (getUTCMonth date) 1 = Finite m"
    "getUTCDate date = Finite dn"
    by (rule dateFromSelected_Some)
  from assms obtain t where t: "date = Date (Finite t)"
    by (rule dateFromSelected_time)
  have "\<bar>MonthFromTime t + 1\<bar> < two53"
    using MonthFromTime_range [of t] by (simp add: two53_def)
  then have a: "toNumber (MonthFromTime t + 1) = Finite (MonthFromTime t + 1)"
    by (simp add: toNumber_small)
  from v have g: "YearFromTime t = yn" "MonthFromTime t + 1 = m" "DateFromTime t = dn"
    by (simp_all add: t getUTCFullYear_def getUTCMonth_def getUTCDate_def a)
  have mn: "0 \<le> m - 1" "m - 1 \<le> 11" and mt: "MonthFromTime t = m - 1"
    using MonthFromTime_range [of t] g(2) by auto
  have dr: "1 \<le> dn" "dn \<le> daysInMonth (m - 1) (DaysInYear yn - 365)"
    using DateFromTime_range [of t] by (simp_all add: g(1,3) mt InLeapYear_eq)
  have dt: "Day t = civilDay yn (m - 1) dn"
    using Day_civil [of t] by (simp add: g(1,3) mt)
  have "TimeClip (Date_UTC yn (m - 1) dn) = Date_UTC yn (m - 1) dn"
    by (simp add: Date_UTC_def TimeClip_idem)
  with n t have u: "Date_UTC yn (m - 1) dn = Finite t"
    by (simp add: newDate_def)
  let ?yr = "if 0 \<le> yn \<and> yn \<le> 99 then 1900 + yn else yn"
  note f = Date_UTC_Finite [OF u mn]
  have "Day t = civilDay ?yr (m - 1) dn"
    using f by (simp only: Day_of_days)
  with dt have e: "civilDay yn (m - 1) dn = civilDay ?yr (m - 1) dn"
    by simp
  have y: "\<not> (0 \<le> yn \<and> yn \<le> 99)"
  proof
    assume c: "0 \<le> yn \<and> yn \<le> 99"
    have "civilDay yn (m - 1) dn < DayFromYear (yn + 1)"
      using civilDay_in_year [OF mn dr] by simp
    also have "\<dots> \<le> DayFromYear (1900 + yn)"
      by (rule DayFromYear_mono) simp
    also have "\<dots> \<le> civilDay (1900 + yn) (m - 1) dn"
      by (rule civilDay_lower [OF dr(1)])
    finally show False
      using e c by simp
  qed
  then have yr: "?yr = yn"
    by auto
  have f1: "t = civilDay yn (m - 1) dn * msPerDay" and f3: "\<bar>t\<bar> \<le> maxTime"
    using f [unfolded yr] by blast+
  show ?thesis
  proof (rule that [OF p y _ _ dr])
    show "1 \<le> m" "m \<le> 12"
      using mn by simp_all
    show "\<bar>civilDay yn (m - 1) dn * msPerDay\<bar> \<le> maxTime"
      using f3 unfolding f1 .
    show "date = Date (Finite (civilDay yn (m - 1) dn * msPerDay))"
      using t unfolding f1 .
  qed
qed

text \<open>So a selection whose fields parse to finite numbers composes to a date exactly when
  they name a day of the calendar, in a year outside 0 to 99 (which \<^verbatim>\<open>Date.UTC\<close> reads as
  1900 to 1999), within the range of time values.\<close>

lemma dateFromSelected_calendar:
  assumes "parseNum (day sel) = Some (Finite dn)" "parseNum (month sel) = Some (Finite m)"
    "parseNum (year sel) = Some (Finite yn)"
  shows "dateFromSelected sel =
    (if \<not> (0 \<le> yn \<and> yn \<le> 99) \<and> 1 \<le> m \<and> m \<le> 12
        \<and> 1 \<le> dn \<and> dn \<le> daysInMonth (m - 1) (DaysInYear yn - 365)
        \<and> \<bar>civilDay yn (m - 1) dn * msPerDay\<bar> \<le> maxTime
     then Some (Date (Finite (civilDay yn (m - 1) dn * msPerDay)))
     else None)"
proof (cases "dateFromSelected sel")
  case None
  then show ?thesis
    using dateFromSelected_existing [OF assms] by auto
next
  case (Some date)
  from Some obtain dn' m' yn' where q: "parseNum (day sel) = Some (Finite dn')"
    "parseNum (month sel) = Some (Finite m')" "parseNum (year sel) = Some (Finite yn')"
    and e: "\<not> (0 \<le> yn' \<and> yn' \<le> 99)" "1 \<le> m'" "m' \<le> 12" "1 \<le> dn'"
    "dn' \<le> daysInMonth (m' - 1) (DaysInYear yn' - 365)"
    "\<bar>civilDay yn' (m' - 1) dn' * msPerDay\<bar> \<le> maxTime"
    "date = Date (Finite (civilDay yn' (m' - 1) dn' * msPerDay))"
    by (rule dateFromSelected_only_existing)
  from q assms have "dn' = dn" "m' = m" "yn' = yn"
    by simp_all
  with e Some show ?thesis
    by simp
qed

text \<open>A field that parses to an infinity gives no date.\<close>

lemma dateFromSelected_not_finite:
  assumes "parseNum (day sel) = Some v \<or> parseNum (month sel) = Some v \<or> parseNum (year sel) = Some v"
    and "v = PosInfinity \<or> v = NegInfinity"
  shows "dateFromSelected sel = None"
proof (cases "dateFromSelected sel")
  case (Some date)
  then obtain dn mn yn where "parseNum (day sel) = Some (Finite dn)"
    "parseNum (month sel) = Some (Finite mn)" "parseNum (year sel) = Some (Finite yn)"
    by (rule dateFromSelected_Some)
  with assms show ?thesis
    by auto
qed simp

text \<open>The first time value of all is 20 April of the year -271821, a day whose month
  begins outside the range.\<close>

lemma DayFromYear_first: "DayFromYear (- 271821) = - 100000109" "DaysInYear (- 271821) = 365"
  by (simp_all add: DayFromYear_def DaysInYear_def)

lemma compose_first_day:
  "dateFromSelected \<lparr>day = JNum 20, month = JNum 4, year = JNum (- 271821)\<rparr>
    = Some (Date (Finite (- 8640000000000000)))"
proof -
  have p: "parseNum (JNum 20) = Some (Finite 20)" "parseNum (JNum 4) = Some (Finite 4)"
    "parseNum (JNum (- 271821)) = Some (Finite (- 271821))"
    by (simp_all add: parseNum_JNum two53_def)
  have c: "civilDay (- 271821) 3 20 = - 100000000"
    by (simp add: civilDay_def DayFromYear_first monthStart_def)
  show ?thesis
    using dateFromSelected_calendar [of "\<lparr>day = JNum 20, month = JNum 4, year = JNum (- 271821)\<rparr>" 20 4 "- 271821"]
    by (simp add: p c DayFromYear_first daysInMonth_def msPerDay_def maxTime_def)
qed

subsection \<open>Strings of the examples, parsed\<close>

lemma digitsValue_examples:
  "digitsValue ''2'' = 2" "digitsValue ''02'' = 2" "digitsValue ''4'' = 4"
  "digitsValue ''12'' = 12" "digitsValue ''29'' = 29" "digitsValue ''2023'' = 2023"
  "digitsValue ''2024'' = 2024"
  by (simp_all add: digitsValue_def digitValue_def)

lemma parseNum_examples:
  "parseNum (JStr ''2'') = Some (Finite 2)" "parseNum (JStr ''02'') = Some (Finite 2)"
  "parseNum (JStr ''4'') = Some (Finite 4)" "parseNum (JStr ''29'') = Some (Finite 29)"
  "parseNum (JStr ''2023'') = Some (Finite 2023)" "parseNum (JStr ''2024'') = Some (Finite 2024)"
  "parseNum (JStr ''12abc'') = Some (Finite 12)"
  using parseNum_string(1) [of "[]" "''2''" "[]"] parseNum_string(1) [of "[]" "''02''" "[]"]
    parseNum_string(1) [of "[]" "''4''" "[]"] parseNum_string(1) [of "[]" "''29''" "[]"]
    parseNum_string(1) [of "[]" "''2023''" "[]"] parseNum_string(1) [of "[]" "''2024''" "[]"]
    parseNum_string(1) [of "[]" "''12''" "''abc''"]
  by (simp_all add: isDigit_def digitsValue_examples two53_def)






subsection \<open>The timeouts of a widget\<close>

lemma clearTimeout_own:
  assumes "timersOwned w"
  shows "clearTimeout (blurTimeoutId w) w = w\<lparr>timers := []\<rparr>"
proof (cases "blurTimeoutId w")
  case None
  with assms have "timers w = []"
    by (cases "timers w") (auto simp: timersOwned_def)
  with None show ?thesis
    by (simp add: clearTimeout_def)
next
  case (Some i)
  with assms have "filter (\<lambda>(j, due). j \<noteq> i) (timers w) = []"
    by (auto simp: timersOwned_def filter_empty_conv list_all_iff)
  with Some show ?thesis
    by (simp add: clearTimeout_def)
qed

lemma handleSelectFocus_owned:
  assumes "timersOwned w"
  shows "handleSelectFocus w = w\<lparr>timers := [], calls := calls w @ [OnFocus]\<rparr>"
  by (simp add: handleSelectFocus_def Let_def clearTimeout_own [OF assms])

lemma handleSelectBlur_owned:
  assumes "timersOwned w"
  shows "handleSelectBlur w =
    w\<lparr>timers := [(nextTimerId w, now w + BLUR_TIMEOUT)],
      nextTimerId := nextTimerId w + 1,
      blurTimeoutId := Some (nextTimerId w)\<rparr>"
  by (simp add: handleSelectBlur_def Let_def clearTimeout_own [OF assms] setTimeout_def)

lemma componentWillUnmount_owned:
  assumes "timersOwned w"
  shows "componentWillUnmount w = w\<lparr>timers := []\<rparr>"
  by (simp add: componentWillUnmount_def clearTimeout_own [OF assms])

lemma elapse_no_timers: "timers w = [] \<Longrightarrow> calls (elapse dt w) = calls w \<and> timers (elapse dt w) = []"
  by (simp add: elapse_def Let_def)

lemma step_owned: "timersOwned w \<Longrightarrow> timersOwned (step w ev)"
proof (cases ev)
  case (Focus control)
  assume "timersOwned w"
  then show ?thesis
    by (simp add: Focus handleSelectFocus_owned timersOwned_def)
next
  case (Blur control)
  assume "timersOwned w"
  then show ?thesis
    by (simp add: Blur handleSelectBlur_owned timersOwned_def)
next
  case (Change type raw)
  assume "timersOwned w"
  then show ?thesis
    by (simp add: Change handleSelectChange_def Let_def timersOwned_def)
next
  case (ReceiveProps v)
  assume "timersOwned w"
  then show ?thesis
    by (simp add: ReceiveProps componentWillReceiveProps_def Let_def timersOwned_def
        split: propValue.splits)
next
  case (Elapse dt)
  assume "timersOwned w"
  then show ?thesis
    by (auto simp: Elapse elapse_def Let_def timersOwned_def list_all_iff)
qed

lemma foldl_step_owned: "timersOwned w \<Longrightarrow> timersOwned (foldl step w evs)"
  by (induction evs arbitrary: w) (simp_all add: step_owned)

lemma mount_owned: "timersOwned (mount v)"
  by (simp add: mount_def componentWillMount_def constructor_def timersOwned_def
      split: propValue.splits)

lemma run_owned: "timersOwned (run v evs)"
  unfolding run_def by (rule foldl_step_owned) (rule mount_owned)

text \<open>A blur, then less than the delay: the timeout is pending and nothing was called.\<close>

lemma blur_pending:
  assumes "timersOwned w" "dt < BLUR_TIMEOUT"
  shows "elapse dt (handleSelectBlur w) =
    w\<lparr>timers := [(nextTimerId w, now w + BLUR_TIMEOUT)],
      nextTimerId := nextTimerId w + 1,
      blurTimeoutId := Some (nextTimerId w),
      now := now w + dt\<rparr>"
  using assms(2) by (simp add: handleSelectBlur_owned [OF assms(1)] elapse_def Let_def)

lemma blur_pending_owned:
  assumes "timersOwned w" "dt < BLUR_TIMEOUT"
  shows "timersOwned (elapse dt (handleSelectBlur w))"
  by (simp add: blur_pending [OF assms] timersOwned_def)

subsection \<open>The option ranges, computed\<close>

lemma map_count_up: "map (\<lambda>index. a + int index) [0..<n] = [a..a + int n - 1]"
proof (induction n)
  case 0
  then show ?case by simp
next
  case (Suc n)
  have "[a..a + int (Suc n) - 1] = [a..a + int n - 1] @ [a + int n]"
    using upto_rec2 [of a "a + int n"] by simp
  with Suc show ?case
    by simp
qed

lemma map_count_down: "map (\<lambda>index. c - int index) [0..<n] = rev [c - int n + 1..c]"
proof (induction n)
  case 0
  then show ?case by simp
next
  case (Suc n)
  have "[c - int (Suc n) + 1..c] = (c - int n) # [c - int n + 1..c]"
    using upto_rec1 [of "c - int n" c] by simp
  with Suc show ?case
    by simp
qed

lemma days_eq: "days = [1..31]"
proof -
  have "days = map (\<lambda>index. 1 + int index) [0..<31]"
    by (simp add: days_def range_lodash_def baseRange_def)
  then show ?thesis
    using map_count_up [of 1 31] by simp
qed

lemma months_eq: "months = [1..12]"
proof -
  have "months = map (\<lambda>index. 1 + int index) [0..<12]"
    by (simp add: months_def range_lodash_def baseRange_def)
  then show ?thesis
    using map_count_up [of 1 12] by simp
qed

lemma years_eq: "years currentYear = rev [currentYear - 79..currentYear]"
proof -
  have "years currentYear = map (\<lambda>index. currentYear - int index) [0..<80]"
    by (simp add: years_def yearsToShow_def range_lodash_def baseRange_def)
  then show ?thesis
    using map_count_down [of currentYear 80] by simp
qed

lemma pad_small:
  assumes "0 \<le> n" "n < two53"
  shows "pad n = (if n < 10 then ''0'' @ digitsOf (nat n) else digitsOf (nat n))"
proof -
  have "\<bar>n\<bar> < two53"
    using assms by simp
  then show ?thesis
    using assms(1) by (simp add: pad_def NumberToString_small)
qed

lemma pad_one_digit:
  "pad 1 = ''01''" "pad 2 = ''02''" "pad 3 = ''03''" "pad 4 = ''04''" "pad 5 = ''05''"
  "pad 6 = ''06''" "pad 7 = ''07''" "pad 8 = ''08''" "pad 9 = ''09''"
  by (simp_all add: pad_small two53_def digitsOf.simps digitChar_def)

lemma pad_two_digits:
  "pad 10 = ''10''" "pad 11 = ''11''" "pad 12 = ''12''" "pad 13 = ''13''" "pad 14 = ''14''"
  "pad 15 = ''15''" "pad 16 = ''16''" "pad 17 = ''17''" "pad 18 = ''18''" "pad 19 = ''19''"
  "pad 20 = ''20''" "pad 21 = ''21''" "pad 22 = ''22''" "pad 23 = ''23''" "pad 24 = ''24''"
  "pad 25 = ''25''" "pad 26 = ''26''" "pad 27 = ''27''" "pad 28 = ''28''" "pad 29 = ''29''"
  "pad 30 = ''30''" "pad 31 = ''31''"
  by (simp_all add: pad_small two53_def digitsOf.simps digitChar_def)

lemma NumberToString_years:
  "NumberToString 2024 = ''2024''" "NumberToString 2023 = ''2023''"
  "NumberToString 1945 = ''1945''"
  by (simp_all add: NumberToString_small two53_def digitsOf.simps digitChar_def)

subsection \<open>Large Numbers: exponents and infinities\<close>

text \<open>A Number from \<open>10 ^ 21\<close> on is written with an exponent, and read back as the digits
  before the point.\<close>

lemma toNumber_15e20:
  "toNumber 1500000000000000000000 = Finite 1500000000000000000000"
  "toNumber (- 1500000000000000000000) = Finite (- 1500000000000000000000)"
proof -
  have "shiftCount 1500000000000000000000 = 18"
    by (simp add: shiftCount.simps)
  then show "toNumber 1500000000000000000000 = Finite 1500000000000000000000"
    "toNumber (- 1500000000000000000000) = Finite (- 1500000000000000000000)"
    by (simp_all add: toNumber_def two53_def Let_def)
qed

lemma toNumber_1e21: "toNumber 1000000000000000000000 = Finite 1000000000000000000000"
proof -
  have "shiftCount 1000000000000000000000 = 17"
    by (simp add: shiftCount.simps)
  then show ?thesis
    by (simp add: toNumber_def two53_def Let_def)
qed

lemma toNumber_2e21: "toNumber 2000000000000000000000 = Finite 2000000000000000000000"
proof -
  have "shiftCount 2000000000000000000000 = 18"
    by (simp add: shiftCount.simps)
  then show ?thesis
    by (simp add: toNumber_def two53_def Let_def)
qed

lemma length_digitsOf_15e20: "length (digitsOf 1500000000000000000000) = 22"
  by (simp add: digitsOf.simps)

lemma digitsOf_15e20: "digitsOf 1500000000000000000000 = ''1500000000000000000000''"
  by (simp add: digitsOf.simps digitChar_def)

lemma shortestDecimal_15e20: "shortestDecimal 1500000000000000000000 = 1500000000000000000000"
proof -
  have "shortestFrom 1500000000000000000000 22 (Suc (Suc 0)) = 1500000000000000000000"
    by (subst shortestFrom.simps) (simp add: toNumber_15e20 Let_def)
  then have "shortestFrom 1500000000000000000000 22 (Suc 0) = 1500000000000000000000"
    by (subst shortestFrom.simps) (simp add: toNumber_1e21 toNumber_2e21 Let_def)
  then show ?thesis
    by (simp add: shortestDecimal_def two53_def length_digitsOf_15e20)
qed

lemma NumberToString_15e20:
  "NumberToString 1500000000000000000000 = ''1.5e+21''"
  "NumberToString (- 1500000000000000000000) = ''-1.5e+21''"
proof -
  have e: "exponentForm ''1500000000000000000000'' = ''1.5e+21''"
    by (simp add: exponentForm_def digitsOf.simps digitChar_def)
  then have p: "positiveToString 1500000000000000000000 = ''1.5e+21''"
    by (simp add: positiveToString_def shortestDecimal_15e20 digitsOf_15e20 Let_def)
  note m = toNumber_15e20(2)
  show "NumberToString 1500000000000000000000 = ''1.5e+21''"
    by (simp add: NumberToString_def toNumber_15e20 p)
  show "NumberToString (- 1500000000000000000000) = ''-1.5e+21''"
    by (simp add: NumberToString_def m p)
qed

lemma parseNum_15e20:
  "parseNum (JNum 1500000000000000000000) = Some (Finite 1)"
  "parseNum (JNum (- 1500000000000000000000)) = Some (Finite (- 1))"
proof -
  have d: "digitsValue ''1'' = 1"
    by (simp add: digitsValue_def digitValue_def)
  have "parseNum (JStr ''1.5e+21'') = Some (Finite 1)"
    using parseNum_string(1) [of "[]" "''1''" "''.5e+21''"]
    by (simp add: isDigit_def d two53_def)
  then show "parseNum (JNum 1500000000000000000000) = Some (Finite 1)"
    by (simp add: parseNum_def parseInt10_def NumberToString_15e20)
  have "parseNum (JStr ''-1.5e+21'') = Some (Finite (- 1))"
    using parseNum_string(3) [of "[]" "''1''" "''.5e+21''"]
    by (simp add: isDigit_def d two53_def)
  then show "parseNum (JNum (- 1500000000000000000000)) = Some (Finite (- 1))"
    by (simp add: parseNum_def parseInt10_def NumberToString_15e20)
qed

text \<open>So a year of \<open>-1.5e21\<close> composes to a date of the year \<open>-1\<close>, and the raw value
  \<open>1500000000000000000000\<close> is stored as a Number that \<open>dateFromSelected\<close> reads as 1.\<close>

lemma DayFromYear_minus_1: "DayFromYear (- 1) = - 719893" "DaysInYear (- 1) = 365"
  by (simp_all add: DayFromYear_def DaysInYear_def)

lemma compose_year_15e20:
  "dateFromSelected \<lparr>day = JNum 1, month = JNum 1, year = JNum (- 1500000000000000000000)\<rparr>
    = Some (Date (Finite (- 62198755200000)))"
  "selectedFromDate (Date (Finite (- 62198755200000)))
    = \<lparr>day = JNum 1, month = JNum 1, year = JNum (- 1)\<rparr>"
proof -
  have c: "civilDay (- 1) 0 1 * msPerDay = - 62198755200000"
    by (simp add: civilDay_def DayFromYear_minus_1 monthStart_def msPerDay_def)
  show "dateFromSelected \<lparr>day = JNum 1, month = JNum 1, year = JNum (- 1500000000000000000000)\<rparr>
    = Some (Date (Finite (- 62198755200000)))"
    using dateFromSelected_calendar [of "\<lparr>day = JNum 1, month = JNum 1, year = JNum (- 1500000000000000000000)\<rparr>" 1 1 "- 1"]
    by (simp add: parseNum_15e20 c DayFromYear_minus_1 daysInMonth_def maxTime_def)
  show "selectedFromDate (Date (Finite (- 62198755200000)))
    = \<lparr>day = JNum 1, month = JNum 1, year = JNum (- 1)\<rparr>"
    using getters_civil [of 0 1 "- 1"]
    by (simp add: selectedFromDate_def c DayFromYear_minus_1 daysInMonth_def toNumber_small two53_def)
qed

text \<open>From \<open>2 ^ 1024\<close> on the Number is an infinity; \<open>parseNum\<close> returns it, and no date
  has it as a field.\<close>

lemma shiftCount_power: "shiftCount (2 ^ (53 + k)) = Suc k"
proof (induction k)
  case 0
  show ?case
    by (simp add: shiftCount.simps)
next
  case (Suc k)
  have "(2::nat) ^ 53 \<le> 2 ^ (53 + Suc k)"
    by (rule power_increasing) simp_all
  moreover have "(2::nat) ^ 53 = 9007199254740992"
    by simp
  ultimately have n: "\<not> (2::nat) ^ (53 + Suc k) < 9007199254740992"
    by linarith
  have "shiftCount (2 ^ (53 + Suc k)) = Suc (shiftCount (2 ^ (53 + Suc k) div 2))"
    by (subst shiftCount.simps) (simp only: n if_False)
  also have "(2::nat) ^ (53 + Suc k) div 2 = 2 ^ (53 + k)"
    by (simp only: add_Suc_right power_Suc nonzero_mult_div_cancel_left)
  finally show ?case
    by (simp only: Suc.IH)
qed

lemma toNumber_two1024: "toNumber (2 ^ 1024) = PosInfinity"
proof -
  have "nat \<bar>2 ^ 1024 :: int\<bar> = 2 ^ (53 + 971)"
    by (simp add: nat_power_eq)
  then have s: "shiftCount (nat \<bar>2 ^ 1024 :: int\<bar>) = 972"
    by (simp only: shiftCount_power)
  have n: "nat \<bar>2 ^ 1024 :: int\<bar> = 2 ^ 52 * 2 ^ 972"
    by (simp add: nat_power_eq flip: power_add)
  have "\<not> \<bar>2 ^ 1024 :: int\<bar> < two53"
    by (simp add: two53_def)
  then show ?thesis
    unfolding toNumber_def Let_def s by (simp add: n)
qed

lemma parseNum_digitsOf: "parseNum (JStr (digitsOf n)) = Some (toNumber (int n))"
proof -
  have "parseInt10 (JStr (digitsOf n)) = toNumber (int n)"
    using parseInt10_string(1) [of "[]" "digitsOf n" "[]"] digitsOf_props [of n] by simp
  moreover have "\<not> isNaN (toNumber (int n))"
    using toNumber_not_NaN [of "int n"] by (cases "toNumber (int n)") simp_all
  ultimately show ?thesis
    by (simp add: parseNum_def)
qed

lemma parseNum_two1024: "parseNum (JStr (digitsOf (2 ^ 1024))) = Some PosInfinity"
  using toNumber_two1024 by (simp add: parseNum_digitsOf)

lemma compose_two1024:
  "dateFromSelected \<lparr>day = JNum 1, month = JNum 1, year = JStr (digitsOf (2 ^ 1024))\<rparr> = None"
proof -
  let ?s = "\<lparr>day = JNum 1, month = JNum 1, year = JStr (digitsOf (2 ^ 1024))\<rparr>"
  have "parseNum (year ?s) = Some PosInfinity"
    unfolding selection.select_convs by (rule parseNum_two1024)
  then have "parseNum (day ?s) = Some PosInfinity \<or> parseNum (month ?s) = Some PosInfinity
      \<or> parseNum (year ?s) = Some PosInfinity"
    by blast
  then show ?thesis
    by (rule dateFromSelected_not_finite) blast
qed

section \<open>The claims\<close>

text \<open>
  Claim C1. For every selection whose day, month and year all parse as integers,
  \<open>dateFromSelected\<close> returns the date made by \<^verbatim>\<open>Date.UTC(year, month - 1, day)\<close> exactly
  when the UTC year, the UTC month plus one and the UTC day read from that date are the
  parsed inputs, and \<^verbatim>\<open>null\<close> otherwise. So 31 April 2023 and 29 February 2023 give
  \<^verbatim>\<open>null\<close>, and 29 February 2024 gives a date (midnight UTC of that day).
\<close>

theorem dateFromSelected_iff_reread:
  assumes "parseNum (day sel) = Some (Finite dn)"
    and "parseNum (month sel) = Some (Finite mn)"
    and "parseNum (year sel) = Some (Finite yn)"
  shows "(let d = newDate (Date_UTC yn (mn - 1) dn)
          in dateFromSelected sel =
               (if getUTCFullYear d = Finite yn \<and> addNumber (getUTCMonth d) 1 = Finite mn
                   \<and> getUTCDate d = Finite dn
                then Some d else None))
    \<and> dateFromSelected \<lparr>day = JNum 31, month = JNum 4, year = JNum 2023\<rparr> = None
    \<and> dateFromSelected \<lparr>day = JNum 29, month = JNum 2, year = JNum 2023\<rparr> = None
    \<and> dateFromSelected \<lparr>day = JNum 29, month = JNum 2, year = JNum 2024\<rparr>
        = Some (Date (Finite 1709164800000))"
proof -
  have "let d = newDate (Date_UTC yn (mn - 1) dn)
      in dateFromSelected sel =
           (if getUTCFullYear d = Finite yn \<and> addNumber (getUTCMonth d) 1 = Finite mn
               \<and> getUTCDate d = Finite dn
            then Some d else None)"
    by (simp add: dateFromSelected_finite [OF assms] Let_def)
  then show ?thesis
    using compose_2023_04_31 compose_2023_02_29 compose_2024_02_29 by blast
qed

theorem dateFromSelected_iff_reread_witness:
  "parseNum (day \<lparr>day = JStr ''29'', month = JStr ''02'', year = JNum 2024\<rparr>) = Some (Finite 29)
   \<and> parseNum (month \<lparr>day = JStr ''29'', month = JStr ''02'', year = JNum 2024\<rparr>) = Some (Finite 2)
   \<and> parseNum (year \<lparr>day = JStr ''29'', month = JStr ''02'', year = JNum 2024\<rparr>) = Some (Finite 2024)
   \<and> dateFromSelected \<lparr>day = JStr ''29'', month = JStr ''02'', year = JNum 2024\<rparr>
       = Some (Date (Finite 1709164800000))
   \<and> getUTCFullYear (Date (Finite 1709164800000)) = Finite 2024
   \<and> addNumber (getUTCMonth (Date (Finite 1709164800000))) 1 = Finite 2
   \<and> getUTCDate (Date (Finite 1709164800000)) = Finite 29"
proof -
  let ?s = "\<lparr>day = JStr ''29'', month = JStr ''02'', year = JNum 2024\<rparr>"
  have d: "parseNum (day ?s) = Some (Finite 29)"
    by (simp add: parseNum_examples)
  have m: "parseNum (month ?s) = Some (Finite 2)"
    by (simp add: parseNum_examples)
  have y: "parseNum (year ?s) = Some (Finite 2024)"
    by simp
  have n: "newDate (Date_UTC 2024 1 29) = Date (Finite 1709164800000)"
    by (simp add: newDate_def Date_UTC_2024_02_29 TimeClip_def maxTime_def)
  have g: "getUTCFullYear (Date (Finite 1709164800000)) = Finite 2024"
    "getUTCMonth (Date (Finite 1709164800000)) = Finite 1"
    "getUTCDate (Date (Finite 1709164800000)) = Finite 29"
    using getters_civil [of 1 29 2024]
    by (simp_all add: Date_UTC_2024_02_29 daysInMonth_def DayFromYear_2024)
  have a: "toNumber 2 = Finite 2"
    by (simp add: toNumber_small two53_def)
  from dateFromSelected_iff_reread [OF d m y]
  have "dateFromSelected ?s = Some (Date (Finite 1709164800000))"
    by (simp add: n g a Let_def)
  with d m y g a show ?thesis
    by simp
qed

text \<open>
  Claim C2. For integers \<open>d\<close> from 1 to 31, \<open>m\<close> from 1 to 12 and \<open>y\<close> from
  \<open>currentYear - 79\<close> to \<open>currentYear\<close>: when \<open>dateFromSelected\<close> of the selection
  \<open>(d, m, y)\<close> is a date, \<open>dateFromSelected\<close> of \<open>selectedFromDate\<close> of that date is the
  same date; and \<open>selectedFromDate\<close> of that date is the selection again when the year is
  below \<open>2 ^ 53\<close> in size. (A Number from \<open>10 ^ 21\<close> on is written with an exponent, and
  \<^verbatim>\<open>parseInt\<close> reads only the digits before the point: a year of \<open>-1.5e21\<close> is read as the
  year \<open>-1\<close>, and that is the year of the date.)
\<close>

theorem compose_decompose_compose:
  assumes "1 \<le> d" "d \<le> 31" "1 \<le> m" "m \<le> 12"
    and "currentYear - 79 \<le> y" "y \<le> currentYear"
    and "dateFromSelected \<lparr>day = JNum d, month = JNum m, year = JNum y\<rparr> = Some date"
  shows "dateFromSelected (selectedFromDate date) = Some date
    \<and> (\<bar>y\<bar> < 2 ^ 53 \<longrightarrow> selectedFromDate date = \<lparr>day = JNum d, month = JNum m, year = JNum y\<rparr>)"
proof -
  from assms(7) obtain dn mn yn where p: "parseNum (JNum d) = Some (Finite dn)"
    "parseNum (JNum m) = Some (Finite mn)" "parseNum (JNum y) = Some (Finite yn)"
    and s: "selectedFromDate date = \<lparr>day = JNum dn, month = JNum mn, year = JNum yn\<rparr>"
    by (rule selectedFromDate_composed) simp
  have "\<bar>d\<bar> < two53" "\<bar>m\<bar> < two53"
    using assms(1-4) by (simp_all add: two53_def)
  with p(1,2) have e: "dn = d" "mn = m"
    by (simp_all add: parseNum_JNum)
  have "yn = y" if "\<bar>y\<bar> < 2 ^ 53"
  proof -
    from that have "\<bar>y\<bar> < two53"
      by (simp add: two53_def)
    with p(3) show ?thesis
      by (simp add: parseNum_JNum)
  qed
  with s e have "\<bar>y\<bar> < 2 ^ 53 \<longrightarrow> selectedFromDate date = \<lparr>day = JNum d, month = JNum m, year = JNum y\<rparr>"
    by simp
  moreover have "dateFromSelected (selectedFromDate date) = Some date"
    using assms(7) by (rule roundtrip)
  ultimately show ?thesis
    by simp
qed

theorem compose_decompose_compose_witness:
  "(1::int) \<le> 29 \<and> (29::int) \<le> 31 \<and> (1::int) \<le> 2 \<and> (2::int) \<le> 12
   \<and> (2026::int) - 79 \<le> 2024 \<and> (2024::int) \<le> 2026
   \<and> dateFromSelected \<lparr>day = JNum 29, month = JNum 2, year = JNum 2024\<rparr>
       = Some (Date (Finite 1709164800000))
   \<and> \<bar>2024 :: int\<bar> < 2 ^ 53
   \<and> selectedFromDate (Date (Finite 1709164800000))
       = \<lparr>day = JNum 29, month = JNum 2, year = JNum 2024\<rparr>
   \<and> dateFromSelected (selectedFromDate (Date (Finite 1709164800000)))
       = Some (Date (Finite 1709164800000))"
  using compose_decompose_compose [of 29 2 2026 2024 "Date (Finite 1709164800000)"]
    compose_2024_02_29
  by simp




text \<open>
  Claim C4. \<open>handleSelectChange\<close> with a field and a raw string parses the string, puts
  the result in that field of the selection and leaves the other two fields as they were;
  it calls \<^verbatim>\<open>onChange\<close> once, with \<open>dateFromSelected\<close> of the new selection; the new
  selection becomes the state whether or not it composes to a date, and nothing else
  changes. After the choices 29, 2 and 2024, choosing the year 2023 passes \<^verbatim>\<open>null\<close> to
  \<^verbatim>\<open>onChange\<close> and leaves 29, 2, 2023 in the state.
\<close>

theorem handleSelectChange_effect:
  "getField type' (selected (handleSelectChange w type (JStr raw)))
      = (if type' = type then parsedVal (parseNum (JStr raw)) else getField type' (selected w))
   \<and> calls (handleSelectChange w type (JStr raw))
      = calls w @ [OnChange (dateFromSelected (selected (handleSelectChange w type (JStr raw))))]
   \<and> (handleSelectChange w type (JStr raw))\<lparr>selected := selected w, calls := calls w\<rparr> = w
   \<and> calls (run NullValue [Change DayField ''29'', Change MonthField ''2'',
          Change YearField ''2024'', Change YearField ''2023''])
      = [OnChange None, OnChange None, OnChange (Some (Date (Finite 1709164800000))), OnChange None]
   \<and> selected (run NullValue [Change DayField ''29'', Change MonthField ''2'',
          Change YearField ''2024'', Change YearField ''2023''])
      = \<lparr>day = JNum 29, month = JNum 2, year = JNum 2023\<rparr>"
proof -
  note p = parseNum_examples
  have n: "dateFromSelected \<lparr>day = JNum 29, month = JNull, year = JNull\<rparr> = None"
    "dateFromSelected \<lparr>day = JNum 29, month = JNum 2, year = JNull\<rparr> = None"
    by (simp_all add: dateFromSelected_None parseNum_absent)
  have "calls (handleSelectChange w type (JStr raw))
      = calls w @ [OnChange (dateFromSelected (selected (handleSelectChange w type (JStr raw))))]"
    by (simp add: handleSelectChange_def Let_def)
  moreover have "(handleSelectChange w type (JStr raw))\<lparr>selected := selected w, calls := calls w\<rparr> = w"
    by (simp add: handleSelectChange_def Let_def)
  moreover have "calls (run NullValue [Change DayField ''29'', Change MonthField ''2'',
          Change YearField ''2024'', Change YearField ''2023''])
      = [OnChange None, OnChange None, OnChange (Some (Date (Finite 1709164800000))), OnChange None]"
    by (simp add: run_def mount_def constructor_def componentWillMount_def handleSelectChange_def
        Let_def p n compose_2024_02_29 compose_2023_02_29)
  moreover have "selected (run NullValue [Change DayField ''29'', Change MonthField ''2'',
          Change YearField ''2024'', Change YearField ''2023''])
      = \<lparr>day = JNum 29, month = JNum 2, year = JNum 2023\<rparr>"
    by (simp add: run_def mount_def constructor_def componentWillMount_def handleSelectChange_def
        Let_def p)
  ultimately show ?thesis
    by (simp add: getField_handleSelectChange)
qed

text \<open>
  Claim C5. In any state the widget can reach: after a blur, and a time shorter than the
  delay of 100 ms, the timeout is pending and \<^verbatim>\<open>onBlur\<close> has not been called (and it
  would be called once when the delay is over); a focus then leaves no timeout pending and
  calls \<^verbatim>\<open>onFocus\<close> at once, so that, however much time passes afterwards, \<^verbatim>\<open>onBlur\<close>
  is not called: the calls are those made before the blur and the one call of
  \<^verbatim>\<open>onFocus\<close>.
\<close>

theorem focus_cancels_pending_blur:
  assumes "dt < BLUR_TIMEOUT"
  shows "(let w = run v evs;
              w1 = elapse dt (step w (Blur a));
              w2 = step w1 (Focus b)
          in timers w1 \<noteq> [] \<and> calls w1 = calls w
             \<and> calls (elapse (BLUR_TIMEOUT - dt) w1) = calls w @ [OnBlur]
             \<and> timers w2 = [] \<and> calls w2 = calls w @ [OnFocus]
             \<and> (\<forall>dt'. calls (elapse dt' w2) = calls w @ [OnFocus]))"
proof -
  let ?w = "run v evs"
  let ?w1 = "elapse dt (handleSelectBlur ?w)"
  let ?w2 = "handleSelectFocus ?w1"
  note o = run_owned [of v evs]
  note b = blur_pending [OF o assms]
  have w2: "?w2 = ?w1\<lparr>timers := [], calls := calls ?w1 @ [OnFocus]\<rparr>"
    by (rule handleSelectFocus_owned) (rule blur_pending_owned [OF o assms])
  have 1: "timers ?w1 \<noteq> []" "calls ?w1 = calls ?w"
    by (simp_all add: b)
  have 2: "calls (elapse (BLUR_TIMEOUT - dt) ?w1) = calls ?w @ [OnBlur]"
    unfolding b using assms by (simp add: elapse_def Let_def)
  have 3: "timers ?w2 = []" "calls ?w2 = calls ?w @ [OnFocus]"
    by (simp_all add: w2 1)
  have 4: "calls (elapse dt' ?w2) = calls ?w @ [OnFocus]" for dt'
    using elapse_no_timers [OF 3(1), of dt'] 3(2) by simp
  show ?thesis
    unfolding Let_def step.simps using 1 2 3 4 by blast
qed

theorem focus_cancels_pending_blur_witness:
  "(50::nat) < BLUR_TIMEOUT
   \<and> calls (run NullValue [Focus DayField, Blur DayField, Elapse 50]) = [OnFocus]
   \<and> calls (run NullValue [Focus DayField, Blur DayField, Elapse 50, Elapse (BLUR_TIMEOUT - 50)])
       = [OnFocus, OnBlur]
   \<and> calls (run NullValue [Focus DayField, Blur DayField, Elapse 50, Focus MonthField])
       = [OnFocus, OnFocus]
   \<and> (\<forall>dt'. calls (run NullValue [Focus DayField, Blur DayField, Elapse 50, Focus MonthField,
         Elapse dt']) = [OnFocus, OnFocus])"
proof -
  have h: "(50::nat) < BLUR_TIMEOUT"
    by (simp add: BLUR_TIMEOUT_def)
  have c: "calls (run NullValue [Focus DayField]) = [OnFocus]"
    by (simp add: run_def mount_def constructor_def componentWillMount_def handleSelectFocus_def
        clearTimeout_def Let_def)
  have r: "run NullValue (evs @ [ev]) = step (run NullValue evs) ev" for evs ev
    by (simp add: run_def)
  from focus_cancels_pending_blur [OF h, of NullValue "[Focus DayField]" DayField MonthField] h c
  show ?thesis
    using r [of "[Focus DayField]"] r [of "[Focus DayField, Blur DayField]"]
      r [of "[Focus DayField, Blur DayField, Elapse 50]"]
      r [of "[Focus DayField, Blur DayField, Elapse 50, Focus MonthField]"]
    by (simp add: Let_def)
qed

text \<open>
  Claim C6. In any state the widget can reach: after a blur, and a time shorter than the
  delay of 100 ms, the timeout is pending; \<open>componentWillUnmount\<close> then leaves no timeout
  pending, and however much time passes afterwards \<^verbatim>\<open>onBlur\<close> is not called.
\<close>

theorem unmount_cancels_pending_blur:
  assumes "dt < BLUR_TIMEOUT"
  shows "(let w = run v evs;
              w1 = elapse dt (step w (Blur a));
              w2 = componentWillUnmount w1
          in timers w1 \<noteq> [] \<and> timers w2 = [] \<and> calls w2 = calls w
             \<and> (\<forall>dt'. calls (elapse dt' w2) = calls w))"
proof -
  let ?w = "run v evs"
  let ?w1 = "elapse dt (handleSelectBlur ?w)"
  let ?w2 = "componentWillUnmount ?w1"
  note o = run_owned [of v evs]
  note b = blur_pending [OF o assms]
  have w2: "?w2 = ?w1\<lparr>timers := []\<rparr>"
    by (rule componentWillUnmount_owned) (rule blur_pending_owned [OF o assms])
  have 1: "timers ?w1 \<noteq> []" "calls ?w1 = calls ?w"
    by (simp_all add: b)
  have 3: "timers ?w2 = []" "calls ?w2 = calls ?w"
    by (simp_all add: w2 1)
  have 4: "calls (elapse dt' ?w2) = calls ?w" for dt'
    using elapse_no_timers [OF 3(1), of dt'] 3(2) by simp
  show ?thesis
    unfolding Let_def step.simps using 1 3 4 by blast
qed

theorem unmount_cancels_pending_blur_witness:
  "(0::nat) < BLUR_TIMEOUT
   \<and> timers (run NullValue [Focus YearField, Blur YearField, Elapse 0]) \<noteq> []
   \<and> timers (componentWillUnmount (run NullValue [Focus YearField, Blur YearField, Elapse 0])) = []
   \<and> (\<forall>dt'. calls (elapse dt'
         (componentWillUnmount (run NullValue [Focus YearField, Blur YearField, Elapse 0])))
       = [OnFocus])"
proof -
  have h: "(0::nat) < BLUR_TIMEOUT"
    by (simp add: BLUR_TIMEOUT_def)
  have c: "calls (run NullValue [Focus YearField]) = [OnFocus]"
    by (simp add: run_def mount_def constructor_def componentWillMount_def handleSelectFocus_def
        clearTimeout_def Let_def)
  have r: "run NullValue (evs @ [ev]) = step (run NullValue evs) ev" for evs ev
    by (simp add: run_def)
  from unmount_cancels_pending_blur [OF h, of NullValue "[Focus YearField]" YearField] h c
  show ?thesis
    using r [of "[Focus YearField]"] r [of "[Focus YearField, Blur YearField]"]
    by (simp add: Let_def)
qed

text \<open>
  Claim C7. \<open>componentWillReceiveProps\<close> replaces the selection by \<open>selectedFromDate\<close> of
  the new value when the new value is a \<^verbatim>\<open>Date\<close> object that is not the object the widget
  had; in every other case, also when the new value is \<^verbatim>\<open>null\<close> after a date, the
  selection stays as it was. Nothing but the selection changes. A widget mounted with
  29 February 2024 that then receives \<^verbatim>\<open>null\<close> still has 29, 2, 2024 selected.
\<close>

theorem componentWillReceiveProps_effect:
  "selected (componentWillReceiveProps w newValue) =
      (case newValue of
         NullValue \<Rightarrow> selected w
       | DateValue r d \<Rightarrow>
           if strictEq (propsValue w) newValue then selected w else selectedFromDate d)
   \<and> (componentWillReceiveProps w newValue)\<lparr>selected := selected w\<rparr> = w
   \<and> selected (componentWillReceiveProps w NullValue) = selected w
   \<and> strictEq (DateValue r d) (DateValue r' d') = (r = r')
   \<and> strictEq (DateValue r d) NullValue = False
   \<and> strictEq NullValue (DateValue r d) = False
   \<and> selected (run (DateValue 1 (Date (Finite 1709164800000))) [])
       = \<lparr>day = JNum 29, month = JNum 2, year = JNum 2024\<rparr>
   \<and> selected (run (DateValue 1 (Date (Finite 1709164800000))) [ReceiveProps NullValue])
       = \<lparr>day = JNum 29, month = JNum 2, year = JNum 2024\<rparr>
   \<and> propsValue (run (DateValue 1 (Date (Finite 1709164800000))) [ReceiveProps NullValue])
       = NullValue"
proof -
  have g: "selectedFromDate (Date (Finite 1709164800000))
      = \<lparr>day = JNum 29, month = JNum 2, year = JNum 2024\<rparr>"
    using getters_civil [of 1 29 2024]
    by (simp add: selectedFromDate_def Date_UTC_2024_02_29 daysInMonth_def DayFromYear_2024
        toNumber_small two53_def)
  have a: "selected (componentWillReceiveProps w newValue) =
      (case newValue of
         NullValue \<Rightarrow> selected w
       | DateValue r d \<Rightarrow>
           if strictEq (propsValue w) newValue then selected w else selectedFromDate d)"
    by (simp add: componentWillReceiveProps_def Let_def split: propValue.splits)
  have b: "(componentWillReceiveProps w newValue)\<lparr>selected := selected w\<rparr> = w"
    by (simp add: componentWillReceiveProps_def Let_def split: propValue.splits)
  have c: "selected (componentWillReceiveProps w NullValue) = selected w"
    by (simp add: componentWillReceiveProps_def)
  have e: "selected (run (DateValue 1 (Date (Finite 1709164800000))) [])
       = \<lparr>day = JNum 29, month = JNum 2, year = JNum 2024\<rparr>"
    "selected (run (DateValue 1 (Date (Finite 1709164800000))) [ReceiveProps NullValue])
       = \<lparr>day = JNum 29, month = JNum 2, year = JNum 2024\<rparr>"
    "propsValue (run (DateValue 1 (Date (Finite 1709164800000))) [ReceiveProps NullValue])
       = NullValue"
    by (simp_all add: run_def mount_def constructor_def componentWillMount_def
        componentWillReceiveProps_def g)
  show ?thesis
    using a b c e by simp
qed

text \<open>
  Claim C8. \<open>BirthdayInputFieldComponent\<close> throws exactly when a label is given (a string
  that is not empty) and no id is (it is \<^verbatim>\<open>null\<close> or the empty string): the error is
  thrown before anything is rendered. With any other label and id it returns its element,
  with a label element exactly when a label is given; the props of the \<^verbatim>\<open>BirthdayInput\<close>
  are those of \<^verbatim>\<open>input\<close>, and the id where \<^verbatim>\<open>input\<close> has none of its own.
\<close>

theorem wrapper_throws_iff_label_without_id:
  "(BirthdayInputFieldComponent css props = Inl (Error ''id required when a label is given''))
      = ((\<exists>l. label props = Some l \<and> l \<noteq> []) \<and> (fieldId props = None \<or> fieldId props = Some []))
   \<and> (\<exists>el. BirthdayInputFieldComponent css props = Inr el
          \<and> labelElement el = (case label props of None \<Rightarrow> None
               | Some l \<Rightarrow> if l = [] then None else Some (fieldId props, l))
          \<and> inputProps el = (\<lambda>k. case input props k of
                Some v \<Rightarrow> Some (Inr v)
              | None \<Rightarrow> if k = ''id'' then Some (Inl (fieldId props)) else None)
          \<and> fieldMeta el = meta props)
      = (\<not> ((\<exists>l. label props = Some l \<and> l \<noteq> []) \<and> (fieldId props = None \<or> fieldId props = Some [])))"
proof -
  have i: "[''id'' \<mapsto> Inl (fieldId props)] ++ (\<lambda>k. map_option Inr (input props k))
      = (\<lambda>k. case input props k of
                Some v \<Rightarrow> Some (Inr v)
              | None \<Rightarrow> if k = ''id'' then Some (Inl (fieldId props)) else None)"
    by (rule ext) (simp add: map_add_def split: option.splits)
  define ip where "ip = (\<lambda>k. case input props k of
                Some v \<Rightarrow> Some (Inr v)
              | None \<Rightarrow> if k = ''id'' then Some (Inl (fieldId props)) else None)"
  have el: "BirthdayInputFieldComponent css props =
      (if truthy (label props) \<and> \<not> truthy (fieldId props)
       then Inl (Error ''id required when a label is given'')
       else Inr \<lparr> classes = classNames
                    [if truthy (rootClassName props) then rootClassName props else Some css,
                     className props],
                  labelElement =
                    (case label props of
                       None \<Rightarrow> None
                     | Some l \<Rightarrow> if l \<noteq> [] then Some (fieldId props, l) else None),
                  inputProps = ip,
                  fieldMeta = meta props \<rparr>)"
    by (simp add: BirthdayInputFieldComponent_def Let_def i ip_def)
  show ?thesis
    unfolding ip_def [symmetric] el
    by (cases "label props"; cases "fieldId props") (auto simp: truthy_def)
qed

text \<open>
  Claim C9. The options are fixed. The days are 1 to 31, whatever is selected, and the
  months are 1 to 12; the years are the current year and the 79 years before it, the
  current year first. The labels of the days and of the months have two digits, with a
  zero in front of a single digit; the label of a year is the year as it is written.
\<close>

theorem option_domains:
  "days = [1..31] \<and> months = [1..12]
   \<and> years currentYear = rev [currentYear - 79..currentYear]
   \<and> map fst dayOptions = days \<and> map fst monthOptions = months
   \<and> map fst (yearOptions currentYear) = years currentYear
   \<and> map snd dayOptions =
       [''01'', ''02'', ''03'', ''04'', ''05'', ''06'', ''07'', ''08'', ''09'', ''10'',
        ''11'', ''12'', ''13'', ''14'', ''15'', ''16'', ''17'', ''18'', ''19'', ''20'',
        ''21'', ''22'', ''23'', ''24'', ''25'', ''26'', ''27'', ''28'', ''29'', ''30'', ''31'']
   \<and> map snd monthOptions =
       [''01'', ''02'', ''03'', ''04'', ''05'', ''06'', ''07'', ''08'', ''09'', ''10'',
        ''11'', ''12'']
   \<and> map snd (yearOptions currentYear) = map NumberToString (years currentYear)
   \<and> take 2 (yearOptions 2024) = [(2024, ''2024''), (2023, ''2023'')]
   \<and> last (yearOptions 2024) = (1945, ''1945'')
   \<and> length (yearOptions currentYear) = 80"
proof -
  have d: "map snd dayOptions = map pad [1..31]" and m: "map snd monthOptions = map pad [1..12]"
    by (simp_all add: dayOptions_def monthOptions_def days_eq months_eq comp_def)
  have y: "years 2024 = map (\<lambda>index. 2024 - int index) [0..<80]"
    by (simp add: years_def yearsToShow_def range_lodash_def baseRange_def)
  note s = NumberToString_years
  have t: "take 2 (yearOptions 2024) = [(2024, ''2024''), (2023, ''2023'')]"
    by (simp add: yearOptions_def y s take_map upt_rec [of 0] upt_rec [of 1] take_Cons')
  have "yearOptions 2024 \<noteq> []"
    by (simp add: yearOptions_def y)
  then have l: "last (yearOptions 2024) = (1945, ''1945'')"
    by (simp add: yearOptions_def y s last_map)
  have n: "length (yearOptions currentYear) = 80"
    by (simp add: yearOptions_def years_def yearsToShow_def range_lodash_def baseRange_def)
  have f: "map fst dayOptions = days" "map fst monthOptions = months"
    "map fst (yearOptions currentYear) = years currentYear"
    "map snd (yearOptions currentYear) = map NumberToString (years currentYear)"
    by (simp_all add: dayOptions_def monthOptions_def yearOptions_def comp_def)
  have d': "map pad [1..31] =
       [''01'', ''02'', ''03'', ''04'', ''05'', ''06'', ''07'', ''08'', ''09'', ''10'',
        ''11'', ''12'', ''13'', ''14'', ''15'', ''16'', ''17'', ''18'', ''19'', ''20'',
        ''21'', ''22'', ''23'', ''24'', ''25'', ''26'', ''27'', ''28'', ''29'', ''30'', ''31'']"
    by (simp add: upto_rec1 pad_one_digit pad_two_digits)
  have m': "map pad [1..12] =
       [''01'', ''02'', ''03'', ''04'', ''05'', ''06'', ''07'', ''08'', ''09'', ''10'',
        ''11'', ''12'']"
    by (simp add: upto_rec1 pad_one_digit pad_two_digits)
  note D = d [unfolded d'] and M = m [unfolded m']
  show ?thesis
    by (intro conjI) (rule days_eq months_eq years_eq f D M t l n)+
qed




end
